theory Spec2Isabelle
  imports Main "HOL-Library.Word" "HOL-Library.Sublist"
begin

unbundle bit_operations_syntax

section \<open>Machine types and host memory\<close>

text \<open>
  The cheat search of \<^verbatim>\<open>Source/Core/DolphinQt/CheatsManager.cpp\<close> works on fixed-width
  unsigned integers and on raw bytes of the emulated console's RAM.  The emulated RAM is
  big-endian; the host running the code is little-endian (the code calls
  \<^verbatim>\<open>Common::swap16\<close> / \<^verbatim>\<open>Common::swap32\<close> to convert), so the object representation
  of a \<^verbatim>\<open>u32\<close> in host memory lists its least significant byte first.
\<close>

type_synonym u8 = "8 word"
type_synonym u16 = "16 word"
type_synonym u32 = "32 word"

text \<open>
  Undefined behaviour of the C++ (a null or dangling pointer, a read past the end of a buffer
  or of a vector) is an error value of the model.
\<close>

datatype error = InvalidPointer | OutOfBounds

text \<open>The four bytes of a \<^verbatim>\<open>u32\<close> object as they lie in host memory, and back.\<close>

definition bytes_of_u32 :: "u32 \<Rightarrow> u8 list" where
  "bytes_of_u32 v = [ucast v, ucast (drop_bit 8 v), ucast (drop_bit 16 v), ucast (drop_bit 24 v)]"

definition u32_of_bytes :: "u8 list \<Rightarrow> u32" where
  "u32_of_bytes bs = foldr (\<lambda>b acc. ucast b OR push_bit 8 acc) bs 0"

text \<open>\<^verbatim>\<open>&buf[off]\<close> read for \<open>n\<close> bytes.\<close>

definition read_bytes :: "u8 list \<Rightarrow> nat \<Rightarrow> nat \<Rightarrow> error + u8 list" where
  "read_bytes buf off n =
     (if off + n \<le> length buf then Inr (take n (drop off buf)) else Inl OutOfBounds)"

text \<open>
  \<^verbatim>\<open>std::memcmp\<close> on two byte ranges of the same length: the sign of the difference of the
  first pair of differing bytes, read as unsigned; the code only looks at the sign.
\<close>

fun memcmp :: "u8 list \<Rightarrow> u8 list \<Rightarrow> int" where
  "memcmp (a # as) (b # bs) = (if a < b then - 1 else if b < a then 1 else memcmp as bs)"
| "memcmp _ _ = 0"

text \<open>
  \<^verbatim>\<open>memcpy(&dst, src, n)\<close> into a \<^verbatim>\<open>u32\<close> object: the first \<open>n\<close> bytes of the object are
  replaced, the others stay; more than four bytes would write past the object.
\<close>

definition memcpy_u32 :: "u32 \<Rightarrow> u8 list \<Rightarrow> error + u32" where
  "memcpy_u32 dst src =
     (if length src \<le> 4 then Inr (u32_of_bytes (src @ drop (length src) (bytes_of_u32 dst)))
      else Inl OutOfBounds)"

section \<open>The emulator, as the cheat search sees it\<close>

text \<open>
  The memory subsystem (\<^verbatim>\<open>Core/HW/Memmap.h\<close>, \<^verbatim>\<open>Core/PowerPC/MMU.h\<close>, \<^verbatim>\<open>Core/Core.h\<close>) is not
  part of the sources at hand; what the cheat search calls is a parameter of the model.  A
  pointer into one of the three host buffers is the name of the buffer: the buffer's bytes
  are read from the emulator at the time of the access, since the running game changes them
  between two searches.  \<^verbatim>\<open>HostRead_F32\<close> returns the bit pattern of the float, and
  \<^verbatim>\<open>QString::number\<close> of a float is a parameter as well.
\<close>

datatype buffer = RAM | EXRAM | FakeVMEM

record Emulator =
  IsRunningAndStarted :: bool
  m_pRAM :: "u8 list option"
  m_pEXRAM :: "u8 list option"
  m_pFakeVMEM :: "u8 list option"
  GetRamSizeReal :: u32
  GetExRamSizeReal :: u32
  GetFakeVMemSize :: u32
  HostIsRAMAddress :: "u32 \<Rightarrow> bool"
  HostRead_U8 :: "u32 \<Rightarrow> u8"
  HostRead_U16 :: "u32 \<Rightarrow> u16"
  HostRead_U32 :: "u32 \<Rightarrow> u32"
  HostRead_F32 :: "u32 \<Rightarrow> u32"
  number_of_float :: "u32 \<Rightarrow> string"

fun deref :: "Emulator \<Rightarrow> buffer option \<Rightarrow> u8 list option" where
  "deref emu None = None"
| "deref emu (Some RAM) = m_pRAM emu"
| "deref emu (Some EXRAM) = m_pEXRAM emu"
| "deref emu (Some FakeVMEM) = m_pFakeVMEM emu"

text \<open>\<^verbatim>\<open>&m_ram.ptr[off]\<close> read for \<open>n\<close> bytes.\<close>

definition ram_read :: "u8 list option \<Rightarrow> nat \<Rightarrow> nat \<Rightarrow> error + u8 list" where
  "ram_read mem off n = (case mem of None \<Rightarrow> Inl InvalidPointer | Some buf \<Rightarrow> read_bytes buf off n)"

section \<open>The state of the cheats manager\<close>

text \<open>
  The header \<^verbatim>\<open>CheatsManager.h\<close> is not part of the sources at hand; the members of the class
  and of its two structures are taken from the way \<^verbatim>\<open>CheatsManager.cpp\<close> uses them.  A
  candidate is a \<^verbatim>\<open>Result\<close>: an offset into the region and the value last seen there, kept as
  the raw bytes of the region.  \<^verbatim>\<open>m_ram\<close> is the selected region.
\<close>

record Result =
  address :: u32
  old_value :: u32

record MemoryInfo =
  ptr :: "buffer option"
  size_ram :: u32
  base :: u32

text \<open>
  A line edit is modelled by what the Qt conversions of its text return: \<open>None\<close> of
  \<^verbatim>\<open>toUInt(&good, 16)\<close> stands for \<^verbatim>\<open>good == false\<close>.
\<close>

record MatchValue =
  isEmpty :: bool
  toFloat :: "u32 option"
  toULong :: "nat \<Rightarrow> nat option"

record QTableWidget =
  rowCount :: int
  item :: "int \<times> int \<Rightarrow> string option"

text \<open>
  The members the search reads and writes.  A combo box stands for its current index, a radio
  button or check box for whether it is checked, the timer for whether it runs.  Widgets
  being enabled and disabled is left out.  \<open>host_reads\<close> is not a member: it records, in order,
  the calls to \<^verbatim>\<open>PowerPC::HostRead_U8\<close>, \<^verbatim>\<open>HostRead_U16\<close>, \<^verbatim>\<open>HostRead_U32\<close> and
  \<^verbatim>\<open>HostRead_F32\<close> that the display makes.  Sizes and counts of the C++ are natural numbers
  or integers of the model; the vector of candidates stays far below \<open>2 ^ 31\<close> entries, so the
  casts of its size to \<^verbatim>\<open>int\<close> are the identity.
\<close>

datatype HostAccess = Read_U8 u32 | Read_U16 u32 | Read_U32 u32 | Read_F32 u32

record CheatsManager =
  m_ram :: MemoryInfo
  m_results :: "Result list"
  m_search_type_size :: nat
  m_scan_is_initialized :: bool
  m_updating :: bool
  m_match_length :: nat
  m_match_operation :: nat
  m_match_value :: MatchValue
  m_match_decimal :: bool
  m_match_hexadecimal :: bool
  m_range_start :: "u32 option"
  m_range_end :: "u32 option"
  m_ram_main :: bool
  m_ram_wii :: bool
  m_ram_fakevmem :: bool
  m_refresh_enabled :: bool
  m_result_label :: string
  m_match_table :: QTableWidget
  m_timer_active :: bool
  host_reads :: "HostAccess list"

section \<open>Texts shown in the table\<close>

text \<open>
  \<^verbatim>\<open>QString::number(n, b)\<close> of an unsigned integer, with lower-case digits, and
  \<^verbatim>\<open>QStringLiteral("%1").arg(n, w, 16, QLatin1Char('0'))\<close>, which pads it with zeros to at
  least \<open>w\<close> characters.  The code uses the bases 10 and 16.
\<close>

definition digit_char :: "nat \<Rightarrow> char" where
  "digit_char d = ''0123456789abcdef'' ! d"

function number :: "nat \<Rightarrow> nat \<Rightarrow> string" where
  "number b n = (if n < b \<or> b < 2 then [digit_char n] else number b (n div b) @ [digit_char (n mod b)])"
  by pat_completeness auto
termination
  by (relation "measure snd") auto

declare number.simps [simp del]

definition arg_hex :: "nat \<Rightarrow> nat \<Rightarrow> string" where
  "arg_hex n w = replicate (w - length (number 16 n)) CHR ''0'' @ number 16 n"

text \<open>
  \<^verbatim>\<open>text().toUInt(&ok, 16)\<close> on the text of a table cell, which is either hexadecimal
  digits or the marker \<^verbatim>\<open>---\<close>: \<open>None\<close> stands for \<^verbatim>\<open>ok == false\<close>.
\<close>

definition hex_digit :: "char \<Rightarrow> nat option" where
  "hex_digit c =
     (if c \<in> set ''0123456789'' then Some (of_char c - 48)
      else if c \<in> set ''abcdef'' then Some (of_char c - 87)
      else if c \<in> set ''ABCDEF'' then Some (of_char c - 55)
      else None)"

fun parse_hex :: "nat \<Rightarrow> string \<Rightarrow> nat option" where
  "parse_hex acc [] = Some acc"
| "parse_hex acc (c # cs) =
     (case hex_digit c of None \<Rightarrow> None | Some d \<Rightarrow> parse_hex (16 * acc + d) cs)"

definition toUInt_16 :: "string \<Rightarrow> u32 option" where
  "toUInt_16 t =
     (if t = [] then None
      else case parse_hex 0 t of
             None \<Rightarrow> None
           | Some n \<Rightarrow> if n < 2 ^ 32 then Some (of_nat n) else None)"

text \<open>
  The table widget: a row count and the texts of the cells that hold an item.  The table has
  four columns (\<^verbatim>\<open>setColumnCount(4)\<close>); \<^verbatim>\<open>setItem\<close> outside the table does nothing, and
  \<^verbatim>\<open>setRowCount\<close> drops the rows past the new count.
\<close>

definition clearContents :: "QTableWidget \<Rightarrow> QTableWidget" where
  "clearContents t = t\<lparr>item := (\<lambda>_. None)\<rparr>"

definition setRowCount :: "int \<Rightarrow> QTableWidget \<Rightarrow> QTableWidget" where
  "setRowCount n t = t\<lparr>rowCount := n, item := (\<lambda>(r, c). if r < n then item t (r, c) else None)\<rparr>"

definition setItem :: "int \<Rightarrow> int \<Rightarrow> string \<Rightarrow> QTableWidget \<Rightarrow> QTableWidget" where
  "setItem r c txt t =
     (if 0 \<le> r \<and> r < rowCount t \<and> 0 \<le> c \<and> c < 4 then t\<lparr>item := (item t)((r, c) \<mapsto> txt)\<rparr> else t)"

section \<open>The display: Update and TimedUpdate\<close>

definition MAX_RESULTS :: int where
  "MAX_RESULTS = 4096"

text \<open>
  The hexadecimal text of one row (the \<^verbatim>\<open>switch\<close> under \<^verbatim>\<open>HostIsRAMAddress\<close>, whose
  \<^verbatim>\<open>case 4\<close> and \<^verbatim>\<open>default\<close> branches are the same) with the reads it makes.
\<close>

definition value_text :: "Emulator \<Rightarrow> nat \<Rightarrow> u32 \<Rightarrow> string \<times> HostAccess list" where
  "value_text emu type_size a =
     (if type_size = 1 then (arg_hex (unat (HostRead_U8 emu a)) 2, [Read_U8 a])
      else if type_size = 2 then (arg_hex (unat (HostRead_U16 emu a)) 4, [Read_U16 a])
      else (arg_hex (unat (HostRead_U32 emu a)) 8, [Read_U32 a]))"

definition int_text :: "string \<Rightarrow> string" where
  "int_text value_item = (case toUInt_16 value_item of Some n \<Rightarrow> number 10 (unat n) | None \<Rightarrow> ''-'')"

text \<open>The body of the loop of \<^verbatim>\<open>CheatsManager::Update\<close>, for row \<open>i\<close>.\<close>

definition Update_row :: "Emulator \<Rightarrow> nat \<Rightarrow> CheatsManager \<Rightarrow> CheatsManager" where
  "Update_row emu i s =
     (let a = address (m_results s ! i) + base (m_ram s);
          address_item = arg_hex (unat a) 8;
          (value_item, reads) =
             (if HostIsRAMAddress emu a then value_text emu (m_search_type_size s) a
              else (''---'', []));
          float_item = number_of_float emu (HostRead_F32 emu a);
          int_item = int_text value_item;
          t = setItem (int i) 0 address_item (m_match_table s);
          t = setItem (int i) 1 value_item t;
          t = setItem (int i) 2 int_item t;
          t = setItem (int i) 3 float_item t
      in s\<lparr>m_match_table := t, host_reads := host_reads s @ reads @ [Read_F32 a]\<rparr>)"

function Update_loop :: "Emulator \<Rightarrow> nat \<Rightarrow> nat \<Rightarrow> CheatsManager \<Rightarrow> CheatsManager" where
  "Update_loop emu i results_display s =
     (if i < results_display then Update_loop emu (Suc i) results_display (Update_row emu i s)
      else s)"
  by pat_completeness auto
termination
  by (relation "measure (\<lambda>(emu, i, results_display, s). results_display - i)") auto

declare Update_loop.simps [simp del]

definition too_many :: "nat \<Rightarrow> string" where
  "too_many n = ''Too many matches to display ('' @ number 10 n @ '')''"

definition Update :: "Emulator \<Rightarrow> CheatsManager \<Rightarrow> CheatsManager" where
  "Update emu s0 =
     (let s = s0\<lparr>m_updating := True\<rparr>;
          s = s\<lparr>m_match_table := clearContents (m_match_table s)\<rparr>
      in if m_results s = [] then
           s\<lparr>m_result_label := [], m_timer_active := False,
             m_match_table := setRowCount 0 (m_match_table s), m_updating := False\<rparr>
         else
           let s = (if m_refresh_enabled s then s\<lparr>m_timer_active := True\<rparr> else s);
               results_display = int (length (m_results s));
               (results_display, s) =
                  (if results_display > MAX_RESULTS
                   then (MAX_RESULTS, s\<lparr>m_result_label := too_many (length (m_results s))\<rparr>)
                   else (results_display, s));
               s = s\<lparr>m_match_table := setRowCount results_display (m_match_table s)\<rparr>;
               s = s\<lparr>m_result_label := number 10 (length (m_results s)) @ '' Match(es)''\<rparr>;
               s = s\<lparr>m_match_table := setRowCount (int (length (m_results s))) (m_match_table s)\<rparr>;
               s = Update_loop emu 0 (nat results_display) s
           in s\<lparr>m_updating := False\<rparr>)"

text \<open>
  The body of the loop of \<^verbatim>\<open>CheatsManager::TimedUpdate\<close>, for row \<open>i\<close>; the row comes from
  the geometry of the widget, so \<^verbatim>\<open>m_results[i]\<close> can lie outside the vector.
\<close>

definition TimedUpdate_row :: "Emulator \<Rightarrow> int \<Rightarrow> CheatsManager \<Rightarrow> error + CheatsManager" where
  "TimedUpdate_row emu i s =
     (if i < 0 \<or> int (length (m_results s)) \<le> i then Inl OutOfBounds
      else
        let a = address (m_results s ! nat i) + base (m_ram s);
            (value_item, float_item, reads) =
               (if HostIsRAMAddress emu a then
                  (if m_search_type_size s = 1 \<or> m_search_type_size s = 2
                   then (fst (value_text emu (m_search_type_size s) a), None,
                         snd (value_text emu (m_search_type_size s) a))
                   else (fst (value_text emu (m_search_type_size s) a),
                         Some (number_of_float emu (HostRead_F32 emu a)),
                         snd (value_text emu (m_search_type_size s) a) @ [Read_F32 a]))
                else (''---'', None, []));
            int_item = int_text value_item;
            t = setItem i 1 value_item (m_match_table s);
            t = setItem i 2 int_item t;
            t = setItem i 3 (case float_item of None \<Rightarrow> [] | Some f \<Rightarrow> f) t
        in Inr (s\<lparr>m_match_table := t, host_reads := host_reads s @ reads\<rparr>))"

function TimedUpdate_loop :: "Emulator \<Rightarrow> int \<Rightarrow> int \<Rightarrow> CheatsManager \<Rightarrow> error + CheatsManager" where
  "TimedUpdate_loop emu i last_row s =
     (if i \<le> last_row then
        (case TimedUpdate_row emu i s of
           Inl e \<Rightarrow> Inl e
         | Inr s' \<Rightarrow> TimedUpdate_loop emu (i + 1) last_row s')
      else Inr s)"
  by pat_completeness auto
termination
  by (relation "measure (\<lambda>(emu, i, last_row, s). nat (last_row + 1 - i))") auto

declare TimedUpdate_loop.simps [simp del]

text \<open>
  \<open>rowAt_top\<close> and \<open>rowAt_bottom\<close> are what \<^verbatim>\<open>m_match_table->rowAt\<close> returns for the top and
  the bottom of the widget once the row count is set.
\<close>

definition TimedUpdate :: "Emulator \<Rightarrow> int \<Rightarrow> int \<Rightarrow> CheatsManager \<Rightarrow> error + CheatsManager" where
  "TimedUpdate emu rowAt_top rowAt_bottom s =
     (if m_updating s then Inr s
      else if m_results s = [] then
        Inr (s\<lparr>m_result_label := [], m_timer_active := False,
               m_match_table := setRowCount 0 (m_match_table s)\<rparr>)
      else
        let (results_display, s) =
               (if int (length (m_results s)) > MAX_RESULTS
                then (MAX_RESULTS, s\<lparr>m_result_label := too_many (length (m_results s))\<rparr>)
                else (int (length (m_results s)), s));
            s = s\<lparr>m_match_table := setRowCount results_display (m_match_table s)\<rparr>;
            first_row = rowAt_top;
            last_row = (if rowAt_bottom = - 1 then rowCount (m_match_table s) else rowAt_bottom)
        in TimedUpdate_loop emu first_row last_row s)"

section \<open>The search engine\<close>

definition GetTypeSize :: "CheatsManager \<Rightarrow> nat" where
  "GetTypeSize s =
     (if m_match_length s = 0 then 1
      else if m_match_length s = 1 then 2
      else if m_match_length s = 2 then 4
      else if m_match_length s = 3 then 4
      else 4)"

definition EQUAL :: int where "EQUAL = 1"
definition GREATER_THAN :: int where "GREATER_THAN = 2"
definition LESS_THAN :: int where "LESS_THAN = 4"

text \<open>
  The masks of the five entries of the combo box \<^verbatim>\<open>m_match_operation\<close>, in its order:
  Unknown, Not Equal, Equal, Greater than, Less than.
\<close>

definition filters :: "int list" where
  "filters = [EQUAL OR GREATER_THAN OR LESS_THAN, GREATER_THAN OR LESS_THAN,
              EQUAL, GREATER_THAN, LESS_THAN]"

definition Unknown :: nat where "Unknown = 0"
definition NotEqual :: nat where "NotEqual = 1"
definition Equal :: nat where "Equal = 2"
definition GreaterThan :: nat where "GreaterThan = 3"
definition LessThan :: nat where "LessThan = 4"

definition cmp_mask :: "int \<Rightarrow> int" where
  "cmp_mask cmp_result =
     (if cmp_result < 0 then LESS_THAN else if cmp_result \<noteq> 0 then GREATER_THAN else EQUAL)"

text \<open>
  The loop of \<^verbatim>\<open>FilterCheatSearchResults\<close> over \<^verbatim>\<open>m_results\<close>; \<open>mem\<close> is the buffer behind
  \<^verbatim>\<open>m_ram.ptr\<close>.  \<^verbatim>\<open>value\<close> is the captured parameter, overwritten in every round when
  \<^verbatim>\<open>prev\<close> is set.
\<close>

fun filter_loop ::
  "u8 list option \<Rightarrow> nat \<Rightarrow> int \<Rightarrow> bool \<Rightarrow> u32 \<Rightarrow> Result list \<Rightarrow> Result list \<Rightarrow> error + Result list"
where
  "filter_loop mem n filter_mask prev val [] filtered_results = Inr filtered_results"
| "filter_loop mem n filter_mask prev val (result # rest) filtered_results =
     (let val = (if prev then old_value result else val) in
      case ram_read mem (unat (address result)) n of
        Inl e \<Rightarrow> Inl e
      | Inr cur \<Rightarrow>
         (case read_bytes (bytes_of_u32 val) 0 n of
            Inl e \<Rightarrow> Inl e
          | Inr operand \<Rightarrow>
             if cmp_mask (memcmp cur operand) AND filter_mask \<noteq> 0 then
               (case memcpy_u32 (old_value result) cur of
                  Inl e \<Rightarrow> Inl e
                | Inr v \<Rightarrow>
                   filter_loop mem n filter_mask prev val rest
                     (filtered_results @ [result\<lparr>old_value := v\<rparr>]))
             else filter_loop mem n filter_mask prev val rest filtered_results))"

definition FilterCheatSearchResults ::
  "Emulator \<Rightarrow> CheatsManager \<Rightarrow> u32 \<Rightarrow> bool \<Rightarrow> error + CheatsManager"
where
  "FilterCheatSearchResults emu s val prev =
     (if m_match_operation s < length filters then
        (case filter_loop (deref emu (ptr (m_ram s))) (m_search_type_size s)
                (filters ! m_match_operation s) prev val (m_results s) [] of
           Inl e \<Rightarrow> Inl e
         | Inr filtered_results \<Rightarrow> Inr (s\<lparr>m_results := filtered_results\<rparr>))
      else Inl OutOfBounds)"

text \<open>\<^verbatim>\<open>MemoryPtr\<close>: the selected region, when the emulator has it.\<close>

definition MemoryPtr :: "Emulator \<Rightarrow> bool \<Rightarrow> CheatsManager \<Rightarrow> CheatsManager" where
  "MemoryPtr emu update s0 =
     (let s =
        (if m_ram_main s0 \<and> m_pRAM emu \<noteq> None then
           s0\<lparr>m_ram := \<lparr>ptr = Some RAM, size_ram = GetRamSizeReal emu, base = 0x80000000\<rparr>\<rparr>
         else if m_ram_wii s0 \<and> m_pEXRAM emu \<noteq> None then
           s0\<lparr>m_ram := \<lparr>ptr = Some EXRAM, size_ram = GetExRamSizeReal emu, base = 0x90000000\<rparr>\<rparr>
         else if m_ram_fakevmem s0 \<and> m_pFakeVMEM emu \<noteq> None then
           s0\<lparr>m_ram := \<lparr>ptr = Some FakeVMEM, size_ram = GetFakeVMemSize emu, base = 0x7E000000\<rparr>\<rparr>
         else s0\<lparr>m_result_label := ''Memory region is invalid.''\<rparr>)
      in if \<not> update then s
         else s\<lparr>m_range_start := Some (base (m_ram s)),
                m_range_end := Some (base (m_ram s) + size_ram (m_ram s))\<rparr>)"

text \<open>
  The bounds of the scan, lines 445 to 459 of \<^verbatim>\<open>OnNewSearchClicked\<close>: the two line edits
  hold absolute addresses in hexadecimal.
\<close>

definition search_range :: "MemoryInfo \<Rightarrow> u32 option \<Rightarrow> u32 option \<Rightarrow> u32 \<times> u32" where
  "search_range ram start_text end_text =
     (let range_start = 0;
          range_end = size_ram ram;
          custom_start = (case start_text of
                            None \<Rightarrow> range_start
                          | Some t \<Rightarrow> (t - base ram) AND 0xfffffff0);
          custom_end = (case end_text of
                          None \<Rightarrow> range_end
                        | Some t \<Rightarrow> (t - base ram) AND 0xfffffff0);
          range_start = (if custom_start > range_start \<and> custom_start < custom_end
                            \<and> custom_start < range_end
                         then custom_start else range_start);
          range_end = (if custom_end < range_end \<and> custom_end > custom_start
                          \<and> custom_end > range_start
                       then custom_end else range_end)
      in (range_start, range_end))"

text \<open>
  The scan loop of \<^verbatim>\<open>OnNewSearchClicked\<close>.  It ends when \<^verbatim>\<open>addr\<close> meets \<^verbatim>\<open>range_end\<close>
  exactly, so it need not end: not returning is \<open>None\<close>.  \<open>r\<close> is the local \<^verbatim>\<open>Result r\<close>,
  which the code does not initialise.
\<close>

partial_function (option) scan_loop ::
  "u8 list option \<Rightarrow> nat \<Rightarrow> u32 \<Rightarrow> u32 \<Rightarrow> Result \<Rightarrow> Result list \<Rightarrow> (error + Result list) option"
where
  "scan_loop mem n addr range_end r results =
     (if addr = range_end then Some (Inr results)
      else case ram_read mem (unat addr) n of
             Inl e \<Rightarrow> Some (Inl e)
           | Inr cur \<Rightarrow>
              (case memcpy_u32 (old_value r) cur of
                 Inl e \<Rightarrow> Some (Inl e)
               | Inr v \<Rightarrow>
                  scan_loop mem n (addr + of_nat n) range_end (r\<lparr>address := addr, old_value := v\<rparr>)
                    (results @ [r\<lparr>address := addr, old_value := v\<rparr>])))"

definition OnNewSearchClicked ::
  "Emulator \<Rightarrow> Result \<Rightarrow> CheatsManager \<Rightarrow> (error + CheatsManager) option"
where
  "OnNewSearchClicked emu r s0 =
     (if \<not> IsRunningAndStarted emu then
        Some (Inr (s0\<lparr>m_result_label := ''Game is not currently running.''\<rparr>))
      else
        let s = MemoryPtr emu False s0 in
        if ptr (m_ram s) = None then Some (Inr s)
        else
          let s = s\<lparr>m_search_type_size := GetTypeSize s\<rparr>;
              s = s\<lparr>m_results := []\<rparr>;
              s = s\<lparr>m_scan_is_initialized := True\<rparr>;
              (range_start, range_end) = search_range (m_ram s) (m_range_start s) (m_range_end s)
          in case scan_loop (deref emu (ptr (m_ram s))) (m_search_type_size s)
                    range_start range_end r (m_results s) of
               None \<Rightarrow> None
             | Some (Inl e) \<Rightarrow> Some (Inl e)
             | Some (Inr results) \<Rightarrow> Some (Inr (Update emu (s\<lparr>m_results := results\<rparr>))))"

text \<open>
  Modelled from the spec: \<^verbatim>\<open>Common::swap16\<close> and \<^verbatim>\<open>Common::swap32\<close> (\<^verbatim>\<open>Common/Swap.h\<close>) are not
  part of the sources at hand; the spec calls them the byte swap that converts between the
  host's and the console's byte order, so they reverse the bytes of their argument.
\<close>

definition swap16 :: "u16 \<Rightarrow> u16" where
  "swap16 v = push_bit 8 v OR drop_bit 8 v"

definition swap32 :: "u32 \<Rightarrow> u32" where
  "swap32 v = u32_of_bytes (rev (bytes_of_u32 v))"

text \<open>
  \<^verbatim>\<open>SwapValue\<close>; for two bytes, \<^verbatim>\<open>*(u16*)&value = Common::swap16((u8*)&value)\<close> swaps the first
  two bytes of the object, which on the host are the low half of the value.
\<close>

definition SwapValue :: "CheatsManager \<Rightarrow> u32 \<Rightarrow> u32" where
  "SwapValue s val =
     (if GetTypeSize s = 2 then (val AND 0xffff0000) OR ucast (swap16 (ucast val))
      else if GetTypeSize s = 4 then swap32 val
      else val)"

text \<open>
  \<^verbatim>\<open>NextSearch\<close>; its \<^verbatim>\<open>switch (GetTypeSize())\<close> repeats the body of \<^verbatim>\<open>SwapValue\<close>.  A float
  is read by \<^verbatim>\<open>toFloat\<close> and taken as its bit pattern; an integer is cut to 32 bits.
\<close>

definition NextSearch :: "Emulator \<Rightarrow> CheatsManager \<Rightarrow> error + CheatsManager" where
  "NextSearch emu s =
     (if ptr (m_ram s) = None then Inr (s\<lparr>m_result_label := ''Memory Not Ready''\<rparr>)
      else
        let is_float = (m_match_length s = 3);
            base = (if is_float then 16
                    else if m_match_decimal s then 10
                    else if m_match_hexadecimal s then 16 else 8);
            blank_user_value = isEmpty (m_match_value s);
            parsed = (if blank_user_value then Some 0
                      else if is_float then toFloat (m_match_value s)
                      else map_option of_nat (toULong (m_match_value s) base))
        in case parsed of
             None \<Rightarrow> Inr (s\<lparr>m_result_label := ''Incorrect search value.''\<rparr>)
           | Some v \<Rightarrow>
              (case FilterCheatSearchResults emu s
                      (if blank_user_value then v else SwapValue s v) blank_user_value of
                 Inl e \<Rightarrow> Inl e
               | Inr s' \<Rightarrow> Inr (Update emu s')))"

definition Reset :: "Emulator \<Rightarrow> CheatsManager \<Rightarrow> CheatsManager" where
  "Reset emu s0 =
     (let s = s0\<lparr>m_results := []\<rparr>;
          s = s\<lparr>m_match_table := setRowCount 0 (m_match_table s)\<rparr>;
          s = s\<lparr>m_match_table := clearContents (m_match_table s)\<rparr>;
          s = s\<lparr>m_updating := False\<rparr>;
          s = s\<lparr>m_result_label := []\<rparr>
      in Update emu s)"

section \<open>Notions used to state the properties\<close>

text \<open>
  The bytes now in the region at a candidate's offset, whether the loop of
  \<^verbatim>\<open>FilterCheatSearchResults\<close> keeps the candidate, and the candidate with these bytes copied
  over the first \<open>n\<close> bytes of its \<^verbatim>\<open>old_value\<close>.
\<close>

definition cur_bytes :: "u8 list \<Rightarrow> nat \<Rightarrow> Result \<Rightarrow> u8 list" where
  "cur_bytes buf n r = take n (drop (unat (address r)) buf)"

definition keeps :: "u8 list \<Rightarrow> nat \<Rightarrow> int \<Rightarrow> bool \<Rightarrow> u32 \<Rightarrow> Result \<Rightarrow> bool" where
  "keeps buf n fm prev val r =
     (cmp_mask (memcmp (cur_bytes buf n r) (take n (bytes_of_u32 (if prev then old_value r else val))))
        AND fm \<noteq> 0)"

definition refreshed :: "u8 list \<Rightarrow> nat \<Rightarrow> Result \<Rightarrow> Result" where
  "refreshed buf n r =
     r\<lparr>old_value := u32_of_bytes (cur_bytes buf n r @ drop n (bytes_of_u32 (old_value r)))\<rparr>"

text \<open>
  The region is there and every candidate lies inside it with all its bytes: a pass over the
  candidates then has defined behaviour.
\<close>

definition readable :: "Emulator \<Rightarrow> CheatsManager \<Rightarrow> bool" where
  "readable emu s =
     (m_search_type_size s \<le> 4 \<and>
      (case deref emu (ptr (m_ram s)) of
         None \<Rightarrow> False
       | Some buf \<Rightarrow>
          list_all (\<lambda>r. unat (address r) + m_search_type_size s \<le> length buf) (m_results s)))"

text \<open>
  A small emulator for examples: sixteen bytes of main RAM that hold the big-endian 32-bit
  values 5, 9, 0, 0.
\<close>

definition example_emu :: Emulator where
  "example_emu =
     \<lparr>IsRunningAndStarted = True,
      m_pRAM = Some [0, 0, 0, 5, 0, 0, 0, 9, 0, 0, 0, 0, 0, 0, 0, 0],
      m_pEXRAM = None, m_pFakeVMEM = None,
      GetRamSizeReal = 16, GetExRamSizeReal = 0, GetFakeVMemSize = 0,
      HostIsRAMAddress = (\<lambda>a. 0x80000000 \<le> a \<and> a < 0x80000010),
      HostRead_U8 = (\<lambda>a. 0), HostRead_U16 = (\<lambda>a. 0), HostRead_U32 = (\<lambda>a. 0),
      HostRead_F32 = (\<lambda>a. 0), number_of_float = (\<lambda>b. ''0'')\<rparr>"

text \<open>The state the constructor leaves: 32-bit, Unknown, main RAM, no candidates.\<close>

definition initial_state :: CheatsManager where
  "initial_state =
     \<lparr>m_ram = \<lparr>ptr = None, size_ram = 0, base = 0\<rparr>,
      m_results = [],
      m_search_type_size = 4,
      m_scan_is_initialized = False,
      m_updating = False,
      m_match_length = 2,
      m_match_operation = 0,
      m_match_value = \<lparr>isEmpty = True, toFloat = None, toULong = (\<lambda>b. None)\<rparr>,
      m_match_decimal = False,
      m_match_hexadecimal = False,
      m_range_start = Some 0x80000000,
      m_range_end = Some 0x81800000,
      m_ram_main = True,
      m_ram_wii = False,
      m_ram_fakevmem = False,
      m_refresh_enabled = False,
      m_result_label = [],
      m_match_table = \<lparr>rowCount = 0, item = (\<lambda>c. None)\<rparr>,
      m_timer_active = False,
      host_reads = []\<rparr>"

text \<open>Two candidates, at offsets 0 and 4, recorded with the values 5 and 9.\<close>

definition two_candidates :: CheatsManager where
  "two_candidates =
     initial_state
       \<lparr>m_ram := \<lparr>ptr = Some RAM, size_ram = 16, base = 0x80000000\<rparr>,
        m_results := [\<lparr>address = 0, old_value = 0x05000000\<rparr>,
                      \<lparr>address = 4, old_value = 0x09000000\<rparr>],
        m_scan_is_initialized := True\<rparr>"

text \<open>
  The unsigned integer that a byte sequence denotes in the console's byte order, most
  significant byte first; this is how \<^verbatim>\<open>PowerPC::HostRead_U8\<close>, \<^verbatim>\<open>HostRead_U16\<close> and
  \<^verbatim>\<open>HostRead_U32\<close> decode the emulated memory according to the spec.
\<close>

fun be_value :: "u8 list \<Rightarrow> nat" where
  "be_value [] = 0"
| "be_value (b # bs) = unat b * 256 ^ length bs + be_value bs"

text \<open>
  The Refine pass in the words of the spec: a three-way ordering of the current value
  against the operand, classified as Equal, GreaterThan or LessThan; the candidate is kept
  when the bit of its class is set in the mask of the predicate.
\<close>

definition three_way :: "nat \<Rightarrow> nat \<Rightarrow> int" where
  "three_way a b = (if a < b then LESS_THAN else if a = b then EQUAL else GREATER_THAN)"

definition refine_keeps :: "nat \<Rightarrow> nat \<Rightarrow> nat \<Rightarrow> bool" where
  "refine_keeps op a b = (three_way a b AND filters ! op \<noteq> 0)"

text \<open>
  For a candidate: the bytes now at its offset, the bytes recorded in its \<^verbatim>\<open>old_value\<close>, and
  the bytes of a comparison value, each of the width of the search.
\<close>

definition live_bytes :: "Emulator \<Rightarrow> CheatsManager \<Rightarrow> Result \<Rightarrow> u8 list" where
  "live_bytes emu s r =
     (case deref emu (ptr (m_ram s)) of
        None \<Rightarrow> []
      | Some buf \<Rightarrow> cur_bytes buf (m_search_type_size s) r)"

definition recorded_bytes :: "CheatsManager \<Rightarrow> Result \<Rightarrow> u8 list" where
  "recorded_bytes s r = take (m_search_type_size s) (bytes_of_u32 (old_value r))"

definition operand_bytes :: "CheatsManager \<Rightarrow> u32 \<Rightarrow> u8 list" where
  "operand_bytes s val = take (m_search_type_size s) (bytes_of_u32 val)"

text \<open>The example emulator after the game has changed the first value from 5 to 6.\<close>

definition mutated_emu :: Emulator where
  "mutated_emu = example_emu\<lparr>m_pRAM := Some [0, 0, 0, 6, 0, 0, 0, 9, 0, 0, 0, 0, 0, 0, 0, 0]\<rparr>"

text \<open>The two candidates, with the decimal text 5 entered as the value to look for.\<close>

definition decimal_five :: CheatsManager where
  "decimal_five =
     two_candidates
       \<lparr>m_match_operation := Equal,
        m_match_value := \<lparr>isEmpty = False, toFloat = None,
                           toULong = (\<lambda>b. if b = 10 then Some 5 else None)\<rparr>,
        m_match_decimal := True\<rparr>"

text \<open>
  The candidates that \<open>k\<close> rounds of the scan loop append, starting at \<open>addr\<close> with the local
  \<^verbatim>\<open>Result r\<close>; the aligned relative offset that a bound typed as an absolute address
  stands for; a region that the emulator has allocated, whose buffer holds the bytes its
  size announces and whose size is a multiple of the width of the search; and the bounds
  that a new search computes in a state.
\<close>

fun scan_list :: "u8 list \<Rightarrow> nat \<Rightarrow> u32 \<Rightarrow> nat \<Rightarrow> Result \<Rightarrow> Result list" where
  "scan_list buf n addr 0 r = []"
| "scan_list buf n addr (Suc k) r =
     r\<lparr>address := addr,
       old_value := u32_of_bytes (take n (drop (unat addr) buf) @ drop n (bytes_of_u32 (old_value r)))\<rparr>
     # scan_list buf n (addr + of_nat n) k
         (r\<lparr>address := addr,
            old_value := u32_of_bytes (take n (drop (unat addr) buf) @ drop n (bytes_of_u32 (old_value r)))\<rparr>)"

definition custom_bound :: "MemoryInfo \<Rightarrow> u32 \<Rightarrow> u32" where
  "custom_bound ram t = (t - base ram) AND 0xfffffff0"


definition region_ok :: "Emulator \<Rightarrow> CheatsManager \<Rightarrow> bool" where
  "region_ok emu s =
     (case deref emu (ptr (m_ram (MemoryPtr emu False s))) of
        None \<Rightarrow> False
      | Some buf \<Rightarrow>
         unat (size_ram (m_ram (MemoryPtr emu False s))) \<le> length buf \<and>
         GetTypeSize s dvd unat (size_ram (m_ram (MemoryPtr emu False s))))"

definition scan_bounds :: "Emulator \<Rightarrow> CheatsManager \<Rightarrow> u32 \<times> u32" where
  "scan_bounds emu s =
     search_range (m_ram (MemoryPtr emu False s)) (m_range_start s) (m_range_end s)"

text \<open>The constructor's state with both range fields blank: a search without bounds.\<close>

definition no_bounds :: CheatsManager where
  "no_bounds = initial_state\<lparr>m_range_start := None, m_range_end := None\<rparr>"

text \<open>
  What a new search leaves as candidates, a sixteen-byte region at the address of main RAM,
  and an emulator whose main RAM has 24 bytes, a size that is not a multiple of 16.
\<close>

definition candidates_of :: "(error + CheatsManager) option \<Rightarrow> (error + Result list) option" where
  "candidates_of out = map_option (map_sum id m_results) out"

definition small_ram :: MemoryInfo where
  "small_ram = \<lparr>ptr = Some RAM, size_ram = 16, base = 0x80000000\<rparr>"

definition odd_emu :: Emulator where
  "odd_emu = example_emu\<lparr>m_pRAM := Some (replicate 24 0), GetRamSizeReal := 24\<rparr>"

text \<open>
  The invariant of the candidates, on their offsets: every offset is a multiple of the width
  and lies in \<open>[lo, hi)\<close>, and the offsets increase strictly.
\<close>

definition offsets_ok :: "nat \<Rightarrow> u32 \<Rightarrow> u32 \<Rightarrow> u32 list \<Rightarrow> bool" where
  "offsets_ok n lo hi offs =
     (list_all (\<lambda>a. n dvd unat a \<and> lo \<le> a \<and> a < hi) offs \<and> sorted_wrt (<) offs)"

text \<open>
  The reads of floats among the calls into the emulator (\<^verbatim>\<open>Update\<close> makes one for every row
  it decodes), a state with ten thousand candidates, and the example emulator with no
  readable address.
\<close>

fun is_F32 :: "HostAccess \<Rightarrow> bool" where
  "is_F32 (Read_F32 a) = True"
| "is_F32 _ = False"

definition float_reads :: "CheatsManager \<Rightarrow> nat" where
  "float_reads s = length (filter is_F32 (host_reads s))"

definition ten_thousand :: CheatsManager where
  "ten_thousand =
     initial_state
       \<lparr>m_ram := \<lparr>ptr = Some RAM, size_ram = 0x01800000, base = 0x80000000\<rparr>,
        m_results := map (\<lambda>i. \<lparr>address = word_of_nat (4 * i), old_value = 0\<rparr>) [0..<10000],
        m_scan_is_initialized := True\<rparr>"

definition unmapped_emu :: Emulator where
  "unmapped_emu = example_emu\<lparr>HostIsRAMAddress := (\<lambda>a. False)\<rparr>"

text \<open>
  A region that holds the float 1.0 at offset 0, as the console stores it (the bytes 3f 80 00
  00), and the two candidates with the search set to floats and the text 1.0 entered, which
  \<^verbatim>\<open>toFloat\<close> and \<^verbatim>\<open>Common::BitCast<u32>\<close> turn into the bit pattern \<open>0x3f800000\<close>.
\<close>

definition float_emu :: Emulator where
  "float_emu = example_emu\<lparr>m_pRAM := Some [0x3f, 0x80, 0, 0, 0, 0, 0, 9, 0, 0, 0, 0, 0, 0, 0, 0]\<rparr>"

definition float_one :: CheatsManager where
  "float_one =
     two_candidates
       \<lparr>m_match_length := 3,
        m_match_operation := Equal,
        m_match_value := \<lparr>isEmpty = False, toFloat = Some 0x3f800000,
                           toULong = (\<lambda>b. None)\<rparr>\<rparr>"

section \<open>Properties of the host representation\<close>

lemma length_bytes_of_u32 [simp]: "length (bytes_of_u32 v) = 4"
  by (simp add: bytes_of_u32_def)

lemma bytes_of_u32_of_bytes:
  assumes "length bs = 4"
  shows "bytes_of_u32 (u32_of_bytes bs) = bs"
proof -
  from assms obtain a b c d where bs: "bs = [a, b, c, d]"
    by (auto simp: length_Suc_conv numeral_eq_Suc)
  show ?thesis
    unfolding bs u32_of_bytes_def bytes_of_u32_def
    apply simp
    apply (intro conjI bit_word_eqI)
       apply (auto simp: bit_simps dest: bit_imp_le_length)
    done
qed

lemma be_value_lt: "be_value bs < 256 ^ length bs"
proof (induction bs)
  case Nil
  then show ?case by simp
next
  case (Cons b bs)
  have "unat b < 256" using unsigned_less [of b, where 'a = nat] by simp
  then have "unat b * 256 ^ length bs + be_value bs < (unat b + 1) * 256 ^ length bs"
    using Cons.IH by (simp add: algebra_simps)
  also have "\<dots> \<le> 256 * 256 ^ length bs"
    using \<open>unat b < 256\<close> by (intro mult_le_mono1) simp
  finally show ?case by simp
qed

lemma memcmp_three_way:
  "length xs = length ys \<Longrightarrow> cmp_mask (memcmp xs ys) = three_way (be_value xs) (be_value ys)"
proof (induction xs ys rule: list_induct2)
  case Nil
  then show ?case by (simp add: cmp_mask_def three_way_def)
next
  case (Cons a xs b ys)
  let ?p = "(256::nat) ^ length ys"
  have lx: "be_value xs < ?p" using be_value_lt [of xs] Cons.hyps by simp
  have ly: "be_value ys < ?p" using be_value_lt [of ys] by simp
  show ?case
  proof (cases "a < b")
    case True
    then have "unat a + 1 \<le> unat b" by (simp add: word_less_nat_alt)
    then have "(unat a + 1) * ?p \<le> unat b * ?p" by (rule mult_le_mono1)
    then have "unat a * ?p + be_value xs < unat b * ?p + be_value ys"
      using lx by (simp add: algebra_simps)
    then show ?thesis using True Cons.hyps
      by (simp add: cmp_mask_def three_way_def LESS_THAN_def)
  next
    case False
    show ?thesis
    proof (cases "b < a")
      case True
      then have "unat b + 1 \<le> unat a" by (simp add: word_less_nat_alt)
      then have "(unat b + 1) * ?p \<le> unat a * ?p" by (rule mult_le_mono1)
      then have "unat b * ?p + be_value ys < unat a * ?p + be_value xs"
        using ly by (simp add: algebra_simps)
      then show ?thesis using True False Cons.hyps
        by (simp add: cmp_mask_def three_way_def LESS_THAN_def GREATER_THAN_def EQUAL_def)
    next
      case nlt: False
      with False have "a = b" by simp
      then show ?thesis using Cons.IH Cons.hyps by (simp add: three_way_def)
    qed
  qed
qed

lemma nat_bytes:
  "(x::nat) div 16777216 * 16777216 +
     (x div 65536 mod 256 * 65536 + (x div 256 mod 256 * 256 + x mod 256)) = x"
proof -
  define a where "a = x div 256"
  define b where "b = a div 256"
  define c where "c = b div 256"
  have 1: "x div 65536 = b" and 2: "x div 16777216 = c"
    by (simp_all add: a_def b_def c_def div_mult2_eq)
  have "x = a * 256 + x mod 256" "a = b * 256 + a mod 256" "b = c * 256 + b mod 256"
    by (simp_all add: a_def b_def c_def)
  then show ?thesis
    unfolding 1 2 a_def [symmetric] by linarith
qed

lemma unat_drop: "unat (drop_bit k w) = unat w div 2 ^ k"
  for w :: u32
  unfolding unat_drop_bit_eq by (rule drop_bit_eq_div)

lemma unat_byte0: "unat (ucast w :: u8) = unat w mod 256"
  for w :: u32
  by (simp only: unsigned_ucast_eq) (simp add: take_bit_eq_mod)

lemma be_value_rev_bytes: "be_value (rev (bytes_of_u32 w)) = unat w"
proof -
  have lt: "unat w < 2 ^ 32" using unsigned_less [of w, where 'a = nat] by simp
  then have top: "unat w div 16777216 mod 256 = unat w div 16777216"
    by simp
  have p: "(2::nat) ^ 24 = 16777216" "(2::nat) ^ 16 = 65536" "(2::nat) ^ 8 = 256"
    by simp_all
  have "be_value (rev (bytes_of_u32 w)) =
      unat (ucast (drop_bit 24 w) :: u8) * 16777216 +
      (unat (ucast (drop_bit 16 w) :: u8) * 65536 +
       (unat (ucast (drop_bit 8 w) :: u8) * 256 + unat (ucast w :: u8)))"
    unfolding bytes_of_u32_def by simp
  also have "\<dots> = unat w div 16777216 * 16777216 +
     (unat w div 65536 mod 256 * 65536 + (unat w div 256 mod 256 * 256 + unat w mod 256))"
    by (simp only: unat_byte0 unat_drop p top)
  also have "\<dots> = unat w" by (rule nat_bytes)
  finally show ?thesis .
qed


lemma bit_high_half: "bit (0xffff0000 :: u32) n \<longleftrightarrow> 16 \<le> n \<and> n < 32"
proof -
  have e: "(0xffff0000 :: u32) = push_bit 16 (mask 16)"
    by (simp add: mask_eq_exp_minus_1 push_bit_eq_mult)
  show ?thesis
    unfolding e by (auto simp: bit_simps)
qed

lemma high_half: "w AND 0xffff0000 = push_bit 16 (drop_bit 16 w)"
  for w :: u32
proof (rule bit_word_eqI)
  fix n
  assume "n < LENGTH(32)"
  then show "bit (w AND 0xffff0000) n = bit (push_bit 16 (drop_bit 16 w)) n"
    using bit_high_half [of n] by (auto simp: bit_simps)
qed

lemma swap_two_bytes:
  "take 2 (bytes_of_u32 ((w AND 0xffff0000) OR ucast (swap16 (ucast w)))) =
     [ucast (drop_bit 8 w), ucast w]"
proof -
  let ?w' = "push_bit 16 (drop_bit 16 w) OR ucast (swap16 (ucast w))"
  have t: "take 2 (bytes_of_u32 ?w') = [ucast ?w', ucast (drop_bit 8 ?w')]"
    by (simp add: bytes_of_u32_def numeral_2_eq_2)
  have a: "(ucast ?w' :: u8) = ucast (drop_bit 8 w)"
    by (rule bit_word_eqI) (auto simp: bit_simps swap16_def)
  have b: "(ucast (drop_bit 8 ?w') :: u8) = ucast w"
    by (rule bit_word_eqI) (auto simp: bit_simps swap16_def)
  show ?thesis unfolding high_half t a b ..
qed


section \<open>The byte swap of search values\<close>

lemma GetTypeSize_cases: "GetTypeSize s = 1 \<or> GetTypeSize s = 2 \<or> GetTypeSize s = 4"
  by (simp add: GetTypeSize_def)

lemma unat_of_nat_u32: "v < 4294967296 \<Longrightarrow> unat (of_nat v :: u32) = v"
  by (simp add: unat_of_nat)

lemma swap_roundtrip:
  assumes "v < 2 ^ (8 * GetTypeSize s)"
  shows "be_value (take (GetTypeSize s) (bytes_of_u32 (SwapValue s (of_nat v)))) = v"
proof -
  let ?w = "of_nat v :: u32"
  from GetTypeSize_cases [of s] show ?thesis
  proof (elim disjE)
    assume 1: "GetTypeSize s = 1"
    with assms have v: "v < 256" by simp
    then have u: "unat ?w = v" by (intro unat_of_nat_u32) simp
    have "take 1 (bytes_of_u32 ?w) = [ucast ?w]"
      by (simp add: bytes_of_u32_def)
    then show ?thesis using 1 v u
      by (simp add: SwapValue_def unat_byte0)
  next
    assume 2: "GetTypeSize s = 2"
    with assms have v: "v < 65536" by simp
    then have u: "unat ?w = v" by (intro unat_of_nat_u32) simp
    have d: "v div 256 < 256" using v by simp
    have "be_value [ucast (drop_bit 8 ?w) :: u8, ucast ?w] = v div 256 mod 256 * 256 + v mod 256"
      by (simp add: unat_drop unat_byte0 u)
    also have "\<dots> = v" using d by simp
    finally show ?thesis using 2
      by (simp add: SwapValue_def swap_two_bytes)
  next
    assume 3: "GetTypeSize s = 4"
    with assms have v: "v < 4294967296" by simp
    then have u: "unat ?w = v" by (rule unat_of_nat_u32)
    have "bytes_of_u32 (swap32 ?w) = rev (bytes_of_u32 ?w)"
      by (simp add: swap32_def bytes_of_u32_of_bytes)
    then show ?thesis using 3 u
      by (simp add: SwapValue_def be_value_rev_bytes)
  qed
qed


section \<open>Properties of the filter loop\<close>

text \<open>
  Whatever the memory holds, a pass that returns has appended to the accumulator candidates
  whose offsets are a subsequence of the offsets scanned.
\<close>

lemma filter_loop_sub:
  "filter_loop mem n fm prev val rs acc = Inr out \<Longrightarrow>
     \<exists>ys. out = acc @ ys \<and> subseq (map address ys) (map address rs) \<and> length ys \<le> length rs"
proof (induction rs arbitrary: acc val out)
  case Nil
  then show ?case by simp
next
  case (Cons r rs)
  let ?val = "if prev then old_value r else val"
  from Cons.prems obtain cur operand where
    cur: "ram_read mem (unat (address r)) n = Inr cur" and
    opd: "read_bytes (bytes_of_u32 ?val) 0 n = Inr operand"
    by (auto simp: Let_def split: sum.splits)
  show ?case
  proof (cases "cmp_mask (memcmp cur operand) AND fm \<noteq> 0")
    case True
    with Cons.prems cur opd obtain v where
      v: "memcpy_u32 (old_value r) cur = Inr v" and
      rec: "filter_loop mem n fm prev ?val rs (acc @ [r\<lparr>old_value := v\<rparr>]) = Inr out"
      by (auto simp: Let_def split: sum.splits if_splits)
    from Cons.IH [OF rec] obtain ys where
      "out = (acc @ [r\<lparr>old_value := v\<rparr>]) @ ys" "subseq (map address ys) (map address rs)"
      "length ys \<le> length rs" by blast
    then show ?thesis
      by (intro exI [of _ "r\<lparr>old_value := v\<rparr> # ys"]) simp
  next
    case False
    with Cons.prems cur opd have
      rec: "filter_loop mem n fm prev ?val rs acc = Inr out"
      by (auto simp: Let_def split: sum.splits if_splits)
    from Cons.IH [OF rec] obtain ys where
      "out = acc @ ys" "subseq (map address ys) (map address rs)"
      "length ys \<le> length rs" by blast
    then show ?thesis
      by (intro exI [of _ ys]) (simp add: list_emb_Cons)
  qed
qed

text \<open>When every candidate is readable the pass returns, and this is what it returns.\<close>

lemma filter_loop_exact:
  assumes "n \<le> 4" and "\<forall>r \<in> set rs. unat (address r) + n \<le> length buf"
  shows "filter_loop (Some buf) n fm prev val rs acc =
           Inr (acc @ map (refreshed buf n) (filter (keeps buf n fm prev val) rs))"
  using assms(2)
proof (induction rs arbitrary: acc val)
  case Nil
  then show ?case by simp
next
  case (Cons r rs)
  let ?val = "if prev then old_value r else val"
  have k: "keeps buf n fm prev ?val = keeps buf n fm prev val"
    by (rule ext) (simp add: keeps_def)
  have rd: "ram_read (Some buf) (unat (address r)) n = Inr (cur_bytes buf n r)"
    using Cons.prems by (simp add: ram_read_def read_bytes_def cur_bytes_def)
  have op: "read_bytes (bytes_of_u32 ?val) 0 n = Inr (take n (bytes_of_u32 ?val))"
    using assms(1) by (simp add: read_bytes_def)
  have len: "length (cur_bytes buf n r) = n"
    using Cons.prems by (auto simp: cur_bytes_def)
  have cp: "memcpy_u32 (old_value r) (cur_bytes buf n r) = Inr (old_value (refreshed buf n r))"
    using assms(1) len by (simp add: memcpy_u32_def refreshed_def)
  have rf: "r\<lparr>old_value := old_value (refreshed buf n r)\<rparr> = refreshed buf n r"
    by (simp add: refreshed_def)
  have IH: "\<And>acc. filter_loop (Some buf) n fm prev ?val rs acc =
           Inr (acc @ map (refreshed buf n) (filter (keeps buf n fm prev val) rs))"
    using Cons.IH [where val = ?val] Cons.prems k by simp
  show ?case
  proof (cases "keeps buf n fm prev val r")
    case True
    then have "cmp_mask (memcmp (cur_bytes buf n r) (take n (bytes_of_u32 ?val))) AND fm \<noteq> 0"
      by (simp add: keeps_def)
    then show ?thesis
      using True by (simp add: Let_def rd op cp rf IH del: filter_loop.simps(1))
  next
    case False
    then have "\<not> cmp_mask (memcmp (cur_bytes buf n r) (take n (bytes_of_u32 ?val))) AND fm \<noteq> 0"
      by (simp add: keeps_def)
    then show ?thesis
      using False by (simp add: Let_def rd op IH)
  qed
qed

lemma Filter_exact:
  assumes "readable emu s" and "m_match_operation s < length filters"
  obtains buf where "deref emu (ptr (m_ram s)) = Some buf"
    and "FilterCheatSearchResults emu s val prev =
           Inr (s\<lparr>m_results := map (refreshed buf (m_search_type_size s))
                  (filter (keeps buf (m_search_type_size s) (filters ! m_match_operation s) prev val)
                     (m_results s))\<rparr>)"
proof -
  from assms(1) obtain buf where
    buf: "deref emu (ptr (m_ram s)) = Some buf" and
    n: "m_search_type_size s \<le> 4" and
    inb: "\<forall>r \<in> set (m_results s). unat (address r) + m_search_type_size s \<le> length buf"
    by (auto simp: readable_def list_all_iff split: option.splits)
  show thesis
    by (rule that [OF buf])
      (simp add: FilterCheatSearchResults_def assms(2) buf filter_loop_exact [OF n inb])
qed

lemma keeps_refine_keeps:
  assumes "n \<le> 4" and "unat (address r) + n \<le> length buf"
  shows "keeps buf n (filters ! op) prev val r =
         refine_keeps op (be_value (cur_bytes buf n r))
           (be_value (take n (bytes_of_u32 (if prev then old_value r else val))))"
proof -
  have "length (cur_bytes buf n r) = length (take n (bytes_of_u32 (if prev then old_value r else val)))"
    using assms by (auto simp: cur_bytes_def)
  from memcmp_three_way [OF this] show ?thesis
    by (simp add: keeps_def refine_keeps_def)
qed

lemma refreshed_recorded:
  assumes "n \<le> 4" and "unat (address r) + n \<le> length buf"
  shows "take n (bytes_of_u32 (old_value (refreshed buf n r))) = cur_bytes buf n r"
    and "address (refreshed buf n r) = address r"
proof -
  have len: "length (cur_bytes buf n r) = n"
    using assms by (auto simp: cur_bytes_def)
  then have "length (cur_bytes buf n r @ drop n (bytes_of_u32 (old_value r))) = 4"
    using assms(1) by simp
  from bytes_of_u32_of_bytes [OF this] len
  show "take n (bytes_of_u32 (old_value (refreshed buf n r))) = cur_bytes buf n r"
    by (simp add: refreshed_def)
  show "address (refreshed buf n r) = address r"
    by (simp add: refreshed_def)
qed

text \<open>What a pass over readable candidates returns, in the words of the spec.\<close>

lemma Filter_spec:
  assumes "readable emu s" and "m_match_operation s < length filters"
  obtains s' where "FilterCheatSearchResults emu s val prev = Inr s'"
    and "map address (m_results s') =
         map address (filter (\<lambda>r. refine_keeps (m_match_operation s)
                (be_value (live_bytes emu s r))
                (be_value (if prev then recorded_bytes s r else operand_bytes s val)))
              (m_results s))"
    and "list_all (\<lambda>r'. recorded_bytes s' r' = live_bytes emu s' r') (m_results s')"
    and "m_ram s' = m_ram s" and "m_search_type_size s' = m_search_type_size s"
proof -
  let ?n = "m_search_type_size s"
  obtain buf where
    buf: "deref emu (ptr (m_ram s)) = Some buf" and
    F: "FilterCheatSearchResults emu s val prev =
           Inr (s\<lparr>m_results := map (refreshed buf ?n)
                  (filter (keeps buf ?n (filters ! m_match_operation s) prev val)
                     (m_results s))\<rparr>)" (is "_ = Inr ?s'")
    by (rule Filter_exact [OF assms])
  from assms(1) buf have n: "?n \<le> 4" and
    inb: "\<forall>r \<in> set (m_results s). unat (address r) + ?n \<le> length buf"
    by (auto simp: readable_def list_all_iff)
  have flt: "filter (keeps buf ?n (filters ! m_match_operation s) prev val) (m_results s) =
        filter (\<lambda>r. refine_keeps (m_match_operation s)
                (be_value (live_bytes emu s r))
                (be_value (if prev then recorded_bytes s r else operand_bytes s val)))
              (m_results s)"
    by (rule filter_cong [OF refl])
      (simp add: keeps_refine_keeps [OF n] inb live_bytes_def buf recorded_bytes_def
         operand_bytes_def)
  have adr: "map address (m_results ?s') = map address (filter (\<lambda>r. refine_keeps (m_match_operation s)
                (be_value (live_bytes emu s r))
                (be_value (if prev then recorded_bytes s r else operand_bytes s val)))
              (m_results s))"
    by (simp add: flt [symmetric] o_def refreshed_def)
  have upd: "list_all (\<lambda>r'. recorded_bytes ?s' r' = live_bytes emu ?s' r') (m_results ?s')"
    using inb
    by (auto simp: list_all_iff recorded_bytes_def live_bytes_def buf refreshed_recorded [OF n]
          cur_bytes_def)
  show thesis
    by (rule that [OF F adr upd]) simp_all
qed

section \<open>The display leaves the engine alone\<close>

lemma Update_row_engine [simp]:
  "m_results (Update_row emu i s) = m_results s"
  "m_ram (Update_row emu i s) = m_ram s"
  "m_search_type_size (Update_row emu i s) = m_search_type_size s"
  "m_result_label (Update_row emu i s) = m_result_label s"
  "rowCount (m_match_table (Update_row emu i s)) = rowCount (m_match_table s)"
  by (simp_all add: Update_row_def Let_def split_def setItem_def)

lemma Update_loop_engine [simp]:
  "m_results (Update_loop emu i n s) = m_results s \<and>
   m_ram (Update_loop emu i n s) = m_ram s \<and>
   m_search_type_size (Update_loop emu i n s) = m_search_type_size s \<and>
   m_result_label (Update_loop emu i n s) = m_result_label s \<and>
   rowCount (m_match_table (Update_loop emu i n s)) = rowCount (m_match_table s)"
proof (induction emu i n s rule: Update_loop.induct)
  case (1 emu i n s)
  show ?case
  proof (cases "i < n")
    case True
    with "1.IH" show ?thesis by (subst (1 2 3 4 5) Update_loop.simps) simp
  next
    case False
    then show ?thesis by (subst (1 2 3 4 5) Update_loop.simps) simp
  qed
qed

lemma Update_engine [simp]:
  "m_results (Update emu s) = m_results s"
  "m_ram (Update emu s) = m_ram s"
  "m_search_type_size (Update emu s) = m_search_type_size s"
  by (simp_all add: Update_def Let_def split_def)

lemma Update_bytes [simp]:
  "recorded_bytes (Update emu s) = recorded_bytes s"
  "live_bytes emu' (Update emu s) = live_bytes emu' s"
  by (rule ext, simp add: recorded_bytes_def live_bytes_def split: option.splits)+

section \<open>More on the filter loop\<close>

lemma filter_loop_all:
  assumes "\<And>c. cmp_mask c AND fm \<noteq> 0"
  shows "filter_loop mem n fm prev val rs acc = Inr out \<Longrightarrow>
         map address out = map address acc @ map address rs"
proof (induction rs arbitrary: acc val out)
  case Nil
  then show ?case by simp
next
  case (Cons r rs)
  let ?val = "if prev then old_value r else val"
  from Cons.prems assms obtain v where
    rec: "filter_loop mem n fm prev ?val rs (acc @ [r\<lparr>old_value := v\<rparr>]) = Inr out"
    by (auto simp: Let_def split: sum.splits if_splits)
  from Cons.IH [OF rec] show ?case by simp
qed

lemma unknown_mask: "cmp_mask c AND filters ! Unknown \<noteq> 0"
  by (simp add: cmp_mask_def filters_def Unknown_def EQUAL_def GREATER_THAN_def LESS_THAN_def)

text \<open>The definitions to unfold when an example is evaluated.\<close>

lemmas eval_defs = FilterCheatSearchResults_def two_candidates_def initial_state_def
          example_emu_def mutated_emu_def filters_def Unknown_def NotEqual_def Equal_def
          GreaterThan_def LessThan_def EQUAL_def GREATER_THAN_def LESS_THAN_def
          ram_read_def read_bytes_def bytes_of_u32_def cmp_mask_def memcpy_u32_def
          u32_of_bytes_def readable_def

section \<open>The value handed to the filter\<close>

text \<open>
  With the search set to floats the width is 4, and the swap reverses all four bytes of the
  bit pattern.
\<close>

lemma swap_float:
  assumes "m_match_length s = 3"
  shows "bytes_of_u32 (SwapValue s w) = rev (bytes_of_u32 w)"
    and "be_value (take (GetTypeSize s) (bytes_of_u32 (SwapValue s w))) = unat w"
proof -
  from assms have g: "GetTypeSize s = 4" by (simp add: GetTypeSize_def)
  show b: "bytes_of_u32 (SwapValue s w) = rev (bytes_of_u32 w)"
    by (simp add: SwapValue_def g swap32_def bytes_of_u32_of_bytes)
  show "be_value (take (GetTypeSize s) (bytes_of_u32 (SwapValue s w))) = unat w"
    unfolding b g using be_value_rev_bytes [of w] by simp
qed

lemma NextSearch_integer:
  assumes "ptr (m_ram s) \<noteq> None" "\<not> isEmpty (m_match_value s)" "m_match_length s \<noteq> 3"
    "toULong (m_match_value s)
      (if m_match_decimal s then 10 else if m_match_hexadecimal s then 16 else 8) = Some v"
  shows "NextSearch emu s =
        (case FilterCheatSearchResults emu s (SwapValue s (of_nat v)) False of
           Inl e \<Rightarrow> Inl e
         | Inr s' \<Rightarrow> Inr (Update emu s'))"
proof -
  from assms(1) obtain b where p: "ptr (m_ram s) = Some b"
    by (cases "ptr (m_ram s)") simp_all
  from assms(2-4) show ?thesis
    by (simp add: NextSearch_def Let_def p)
qed

lemma NextSearch_float:
  assumes "ptr (m_ram s) \<noteq> None" "\<not> isEmpty (m_match_value s)" "m_match_length s = 3"
    "toFloat (m_match_value s) = Some w"
  shows "NextSearch emu s =
        (case FilterCheatSearchResults emu s (SwapValue s w) False of
           Inl e \<Rightarrow> Inl e
         | Inr s' \<Rightarrow> Inr (Update emu s'))"
proof -
  from assms(1) obtain b where p: "ptr (m_ram s) = Some b"
    by (cases "ptr (m_ram s)") simp_all
  from assms(2-4) show ?thesis
    by (simp add: NextSearch_def Let_def p)
qed

text \<open>The two examples: the float 1.0 and the decimal number 5, each found at offset 0.\<close>

lemma float_one_entered:
  "ptr (m_ram float_one) \<noteq> None" "\<not> isEmpty (m_match_value float_one)"
  "m_match_length float_one = 3" "toFloat (m_match_value float_one) = Some 0x3f800000"
  by (simp_all add: float_one_def two_candidates_def initial_state_def)

lemma decimal_five_entered:
  "ptr (m_ram decimal_five) \<noteq> None" "\<not> isEmpty (m_match_value decimal_five)"
  "m_match_length decimal_five \<noteq> 3"
  "toULong (m_match_value decimal_five)
     (if m_match_decimal decimal_five then 10
      else if m_match_hexadecimal decimal_five then 16 else 8) = Some 5"
  by (simp_all add: decimal_five_def two_candidates_def initial_state_def)

lemma float_filter:
  "FilterCheatSearchResults float_emu float_one (SwapValue float_one 0x3f800000) False =
     Inr (float_one\<lparr>m_results := [\<lparr>address = 0, old_value = 0x0000803f\<rparr>]\<rparr>)"
  by (simp add: eval_defs float_emu_def float_one_def SwapValue_def GetTypeSize_def swap32_def)

lemma decimal_filter:
  "FilterCheatSearchResults example_emu decimal_five (SwapValue decimal_five (of_nat 5)) False =
     Inr (decimal_five\<lparr>m_results := [\<lparr>address = 0, old_value = 0x05000000\<rparr>]\<rparr>)"
  by (simp add: eval_defs decimal_five_def SwapValue_def GetTypeSize_def swap32_def)

lemma float_example:
  "\<exists>s'. NextSearch float_emu float_one = Inr s' \<and> map address (m_results s') = [0]"
  unfolding NextSearch_float [OF float_one_entered] float_filter by simp

lemma decimal_example:
  "\<exists>s'. NextSearch example_emu decimal_five = Inr s' \<and> map address (m_results s') = [0]"
  unfolding NextSearch_integer [OF decimal_five_entered] decimal_filter by simp

section \<open>The scan of a new search\<close>

lemma unat_step:
  fixes addr :: u32
  assumes "unat addr + n < 2 ^ 32"
  shows "unat (addr + of_nat n) = unat addr + n"
proof -
  from assms have n: "n < 2 ^ 32" by simp
  then have "unat (of_nat n :: u32) = n" by (simp add: unat_of_nat)
  with assms show ?thesis
    using unat_add_lem [of addr "of_nat n :: u32"] by simp
qed

lemma scan_loop_exact:
  assumes "0 < n" and "n \<le> 4" and "unat range_end \<le> length buf"
  shows "unat addr + k * n = unat range_end \<Longrightarrow>
         scan_loop (Some buf) n addr range_end r acc =
           Some (Inr (acc @ scan_list buf n addr k r))"
proof (induction k arbitrary: addr r acc)
  case 0
  then have "addr = range_end" by (simp add: word_unat_eq_iff)
  then show ?case by (subst scan_loop.simps) simp
next
  case (Suc k)
  have lt: "unat range_end < 2 ^ 32" using unsigned_less [of range_end, where 'a = nat] by simp
  from Suc.prems assms(1) have ne: "addr \<noteq> range_end" by auto
  from Suc.prems have le: "unat addr + n \<le> unat range_end" by simp
  with lt have st: "unat (addr + of_nat n) = unat addr + n"
    by (intro unat_step) simp
  have rd: "ram_read (Some buf) (unat addr) n = Inr (take n (drop (unat addr) buf))"
    using le assms(3) by (simp add: ram_read_def read_bytes_def)
  have len: "length (take n (drop (unat addr) buf)) = n"
    using le assms(3) by simp
  have cp: "memcpy_u32 (old_value r) (take n (drop (unat addr) buf)) =
      Inr (u32_of_bytes (take n (drop (unat addr) buf) @ drop n (bytes_of_u32 (old_value r))))"
    unfolding memcpy_u32_def len using assms(2) by simp
  have "unat (addr + of_nat n) + k * n = unat range_end"
    using Suc.prems st by simp
  from Suc.IH [OF this] show ?case
    by (subst scan_loop.simps) (simp add: ne rd cp)
qed

lemma scan_list_address:
  "unat addr + k * n < 2 ^ 32 \<Longrightarrow>
   map (\<lambda>c. unat (address c)) (scan_list buf n addr k r) = map (\<lambda>i. unat addr + i * n) [0..<k]"
proof (induction k arbitrary: addr r)
  case 0
  then show ?case by simp
next
  case (Suc k)
  from Suc.prems have st: "unat (addr + of_nat n) = unat addr + n"
    by (intro unat_step) simp
  with Suc.prems have "unat (addr + of_nat n) + k * n < 2 ^ 32" by simp
  from Suc.IH [OF this] st have
    "map (\<lambda>c. unat (address c)) (scan_list buf n (addr + of_nat n) k
         (r\<lparr>address := addr,
            old_value := u32_of_bytes (take n (drop (unat addr) buf) @ drop n (bytes_of_u32 (old_value r)))\<rparr>))
     = map (\<lambda>i. unat addr + n + i * n) [0..<k]" by simp
  also have "\<dots> = map (\<lambda>i. unat addr + i * n) (map Suc [0..<k])"
    by (simp add: o_def add.assoc)
  finally show ?case
    by (simp add: upt_conv_Cons map_Suc_upt del: upt_Suc)
qed

lemma scan_list_recorded:
  assumes "n \<le> 4"
  shows "unat addr + k * n \<le> length buf \<Longrightarrow> unat addr + k * n < 2 ^ 32 \<Longrightarrow>
   list_all (\<lambda>c. take n (bytes_of_u32 (old_value c)) = take n (drop (unat (address c)) buf))
     (scan_list buf n addr k r)"
proof (induction k arbitrary: addr r)
  case 0
  then show ?case by simp
next
  case (Suc k)
  from Suc.prems have st: "unat (addr + of_nat n) = unat addr + n"
    by (intro unat_step) simp
  from Suc.prems have len: "length (take n (drop (unat addr) buf)) = n" by simp
  then have "length (take n (drop (unat addr) buf) @ drop n (bytes_of_u32 (old_value r))) = 4"
    using assms by simp
  from bytes_of_u32_of_bytes [OF this] len have
    hd: "take n (bytes_of_u32 (u32_of_bytes (take n (drop (unat addr) buf) @ drop n (bytes_of_u32 (old_value r)))))
       = take n (drop (unat addr) buf)" by simp
  have "unat (addr + of_nat n) + k * n \<le> length buf" "unat (addr + of_nat n) + k * n < 2 ^ 32"
    using Suc.prems st by simp_all
  from Suc.IH [OF this] hd show ?case by simp
qed

lemma filter_dvd_block:
  assumes "0 < n" and "n dvd m"
  shows "filter (\<lambda>a. n dvd a) [m..<m + n] = [m :: nat]"
proof -
  have "\<not> n dvd a" if "a \<in> set [Suc m..<m + n]" for a
  proof
    assume d: "n dvd a"
    from that have "m < a" "a < m + n" by simp_all
    from d assms(2) have "n dvd a - m" by (rule dvd_diff_nat)
    moreover have "0 < a - m" "a - m < n" using \<open>m < a\<close> \<open>a < m + n\<close> by simp_all
    ultimately show False by (simp add: dvd_imp_le leD)
  qed
  then have "filter (\<lambda>a. n dvd a) [Suc m..<m + n] = []"
    by (simp add: filter_empty_conv)
  moreover have "[m..<m + n] = m # [Suc m..<m + n]"
    using assms(1) by (simp add: upt_conv_Cons)
  ultimately show ?thesis using assms(2) by simp
qed

lemma filter_dvd_upt:
  assumes "0 < n" and "n dvd lo"
  shows "filter (\<lambda>a. n dvd a) [lo..<lo + k * n] = map (\<lambda>i. lo + i * n) [0..<k]"
proof (induction k)
  case 0
  then show ?case by simp
next
  case (Suc k)
  have "[lo..<lo + Suc k * n] = [lo..<lo + k * n] @ [lo + k * n..<lo + k * n + n]"
    using upt_add_eq_append [of lo "lo + k * n" n] by (simp add: add.assoc add.commute [of n])
  moreover have "n dvd lo + k * n" using assms(2) by simp
  ultimately show ?case
    using Suc.IH filter_dvd_block [OF assms(1), of "lo + k * n"] by simp
qed

lemma bit_align_mask: "bit (0xfffffff0 :: u32) n \<longleftrightarrow> 4 \<le> n \<and> n < 32"
proof -
  have e: "(0xfffffff0 :: u32) = push_bit 4 (mask 28)"
    by (simp add: mask_eq_exp_minus_1 push_bit_eq_mult)
  show ?thesis
    unfolding e by (auto simp: bit_simps)
qed

lemma align_down: "x AND 0xfffffff0 = push_bit 4 (drop_bit 4 x)"
  for x :: u32
proof (rule bit_word_eqI)
  fix n
  assume "n < LENGTH(32)"
  then show "bit (x AND 0xfffffff0) n = bit (push_bit 4 (drop_bit 4 x)) n"
    using bit_align_mask [of n] by (auto simp: bit_simps)
qed

lemma dvd_align: "16 dvd unat (x AND 0xfffffff0)"
  for x :: u32
proof -
  have "unat (x AND 0xfffffff0) = (unat (drop_bit 4 x) * 16) mod 2 ^ 32"
    unfolding align_down by (simp add: push_bit_eq_mult unat_word_ariths)
  moreover have "(16::nat) dvd 2 ^ 32" by simp
  ultimately show ?thesis by (simp add: dvd_mod)
qed

lemma align_ge:
  fixes x :: u32
  assumes "16 dvd unat sz" and "sz \<le> x"
  shows "sz \<le> x AND 0xfffffff0"
proof -
  have "unat (x AND 0xfffffff0) = unat x div 16 * 16"
  proof -
    have d: "unat (drop_bit 4 x) = unat x div 16"
      by (simp add: unat_drop)
    have "unat x div 16 * 16 \<le> unat x" by simp
    also have "\<dots> < 2 ^ 32" using unsigned_less [of x, where 'a = nat] by simp
    finally have "unat x div 16 * 16 < 2 ^ 32" .
    then show ?thesis
      unfolding align_down by (simp add: push_bit_eq_mult unat_word_ariths d)
  qed
  moreover from assms(2) have "unat sz \<le> unat x" by (simp add: word_le_nat_alt)
  moreover from assms(1) obtain q where "unat sz = 16 * q" by (auto simp: dvd_def)
  ultimately have "unat sz \<le> unat (x AND 0xfffffff0)"
    by (simp add: less_eq_div_iff_mult_less_eq)
  then show ?thesis by (simp add: word_le_nat_alt)
qed

lemma search_range_cases:
  "search_range ram st et =
     (let cs = (case st of None \<Rightarrow> 0 | Some t \<Rightarrow> custom_bound ram t);
          ce = (case et of None \<Rightarrow> size_ram ram | Some t \<Rightarrow> custom_bound ram t);
          lo = (if 0 < cs \<and> cs < ce \<and> cs < size_ram ram then cs else 0)
      in (lo, if ce < size_ram ram \<and> cs < ce \<and> lo < ce then ce else size_ram ram))"
  by (cases st; cases et) (auto simp: search_range_def custom_bound_def Let_def)

lemma search_range_within:
  "fst (search_range ram st et) \<le> snd (search_range ram st et) \<and>
   snd (search_range ram st et) \<le> size_ram ram"
  by (auto simp: search_range_cases Let_def)

lemma search_range_dvd:
  "16 dvd unat (fst (search_range ram st et))"
  by (auto simp: search_range_cases Let_def custom_bound_def dvd_align split: option.splits)

lemma search_range_end_dvd:
  assumes "n dvd 16" and "n dvd unat (size_ram ram)"
  shows "n dvd unat (snd (search_range ram st et))"
  using assms dvd_trans [OF assms(1) dvd_align]
  by (auto simp: search_range_cases Let_def custom_bound_def split: option.splits)


lemma MemoryPtr_keeps [simp]:
  "m_match_length (MemoryPtr emu u s) = m_match_length s"
  "m_results (MemoryPtr emu u s) = m_results s"
  "m_search_type_size (MemoryPtr emu u s) = m_search_type_size s"
  "m_range_start (MemoryPtr emu False s) = m_range_start s"
  "m_range_end (MemoryPtr emu False s) = m_range_end s"
  "GetTypeSize (MemoryPtr emu u s) = GetTypeSize s"
  by (simp_all add: MemoryPtr_def GetTypeSize_def Let_def)

lemma GetTypeSize_facts: "0 < GetTypeSize s" "GetTypeSize s \<le> 4" "GetTypeSize s dvd 16"
  using GetTypeSize_cases [of s] by auto

lemma OnNewSearchClicked_exact:
  assumes run: "IsRunningAndStarted emu" and ok: "region_ok emu s"
  obtains buf k s' where
    "deref emu (ptr (m_ram (MemoryPtr emu False s))) = Some buf"
    "unat (size_ram (m_ram (MemoryPtr emu False s))) \<le> length buf"
    "unat (fst (scan_bounds emu s)) + k * GetTypeSize s = unat (snd (scan_bounds emu s))"
    "OnNewSearchClicked emu r s = Some (Inr s')"
    "m_results s' = scan_list buf (GetTypeSize s) (fst (scan_bounds emu s)) k r"
    "m_search_type_size s' = GetTypeSize s"
    "m_ram s' = m_ram (MemoryPtr emu False s)"
proof -
  let ?s1 = "MemoryPtr emu False s"
  let ?n = "GetTypeSize s"
  let ?lo = "fst (scan_bounds emu s)" and ?hi = "snd (scan_bounds emu s)"
  from ok obtain buf where
    buf: "deref emu (ptr (m_ram ?s1)) = Some buf" and
    len: "unat (size_ram (m_ram ?s1)) \<le> length buf" and
    dv: "?n dvd unat (size_ram (m_ram ?s1))"
    by (auto simp: region_ok_def split: option.splits)
  from buf obtain b where p: "ptr (m_ram ?s1) = Some b"
    by (cases "ptr (m_ram ?s1)") simp_all
  have wi: "?lo \<le> ?hi" "?hi \<le> size_ram (m_ram ?s1)"
    using search_range_within [of "m_ram ?s1" "m_range_start s" "m_range_end s"]
    by (simp_all add: scan_bounds_def)
  have dlo: "?n dvd unat ?lo"
    unfolding scan_bounds_def
    by (rule dvd_trans [OF GetTypeSize_facts(3) search_range_dvd])
  have dhi: "?n dvd unat ?hi"
    unfolding scan_bounds_def
    by (rule search_range_end_dvd [OF GetTypeSize_facts(3) dv])
  from dhi dlo have "?n dvd unat ?hi - unat ?lo" by (rule dvd_diff_nat)
  then obtain k where k: "unat ?hi - unat ?lo = k * ?n"
    by (auto simp: dvd_def mult.commute)
  from wi(1) have "unat ?lo \<le> unat ?hi" by (simp add: word_le_nat_alt)
  with k have eq: "unat ?lo + k * ?n = unat ?hi" by simp
  from wi(2) len have hb: "unat ?hi \<le> length buf" by (simp add: word_le_nat_alt)
  have sl: "scan_loop (Some buf) ?n ?lo ?hi r [] = Some (Inr ([] @ scan_list buf ?n ?lo k r))"
    by (rule scan_loop_exact [OF GetTypeSize_facts(1,2) hb eq])
  have sb: "search_range (m_ram ?s1) (m_range_start s) (m_range_end s) = (?lo, ?hi)"
    by (simp add: scan_bounds_def)
  have O: "OnNewSearchClicked emu r s =
        Some (Inr (Update emu (?s1\<lparr>m_search_type_size := ?n, m_scan_is_initialized := True,
                 m_results := scan_list buf ?n ?lo k r\<rparr>)))"
    using run sl by (simp add: OnNewSearchClicked_def Let_def p buf [unfolded p] sb case_prod_unfold)
  show thesis
    by (rule that [OF buf len eq O]) simp_all
qed

lemma unat_align: "unat (x AND 0xfffffff0) = unat x div 16 * 16"
  for x :: u32
proof -
  have d: "unat (drop_bit 4 x) = unat x div 16"
    by (simp add: unat_drop)
  have "unat x div 16 * 16 \<le> unat x" by simp
  also have "\<dots> < 2 ^ 32" using unsigned_less [of x, where 'a = nat] by simp
  finally have "unat x div 16 * 16 < 2 ^ 32" .
  then show ?thesis
    unfolding align_down by (simp add: push_bit_eq_mult unat_word_ariths d)
qed

lemma align_mono:
  fixes x y :: u32
  assumes "x \<le> y"
  shows "x AND 0xfffffff0 \<le> y AND 0xfffffff0"
proof -
  from assms have "unat x div 16 \<le> unat y div 16"
    by (simp add: word_le_nat_alt div_le_mono)
  then show ?thesis
    by (simp add: word_le_nat_alt unat_align)
qed

lemma search_range_malformed:
  "fst (search_range ram None et) = 0" "snd (search_range ram st None) = size_ram ram"
  by (auto simp: search_range_cases Let_def)

lemma search_range_outside:
  "size_ram ram \<le> custom_bound ram a \<Longrightarrow> fst (search_range ram (Some a) et) = 0"
  "size_ram ram \<le> custom_bound ram b \<Longrightarrow> snd (search_range ram st (Some b)) = size_ram ram"
  by (auto simp: search_range_cases Let_def)

lemma search_range_inverted:
  assumes "b - base ram \<le> a - base ram"
  shows "search_range ram (Some a) (Some b) = (0, size_ram ram)"
proof -
  from align_mono [OF assms] have "custom_bound ram b \<le> custom_bound ram a"
    by (simp add: custom_bound_def)
  then show ?thesis
    by (auto simp: search_range_cases Let_def)
qed

lemma search_range_none: "search_range ram None None = (0, size_ram ram)"
  by (auto simp: search_range_cases Let_def)

lemma search_range_fully_outside:
  assumes "16 dvd unat (size_ram ram)"
    and "size_ram ram \<le> a - base ram" and "size_ram ram \<le> b - base ram"
  shows "search_range ram (Some a) (Some b) = (0, size_ram ram)"
proof -
  have "size_ram ram \<le> custom_bound ram a" "size_ram ram \<le> custom_bound ram b"
    unfolding custom_bound_def by (rule align_ge [OF assms(1)], fact)+
  then show "search_range ram (Some a) (Some b) = (0, size_ram ram)"
    by (auto simp: search_range_cases Let_def)
qed

lemma MemoryPtr_range [simp]:
  "m_ram (MemoryPtr emu False (s\<lparr>m_range_start := x, m_range_end := y\<rparr>)) = m_ram (MemoryPtr emu False s)"
  by (auto simp: MemoryPtr_def Let_def)

lemma GetTypeSize_range [simp]:
  "GetTypeSize (s\<lparr>m_range_start := x, m_range_end := y\<rparr>) = GetTypeSize s"
  by (simp add: GetTypeSize_def)

lemma OnNewSearchClicked_candidates:
  "candidates_of (OnNewSearchClicked emu r s) =
     (if \<not> IsRunningAndStarted emu \<or> ptr (m_ram (MemoryPtr emu False s)) = None
      then Some (Inr (m_results s))
      else scan_loop (deref emu (ptr (m_ram (MemoryPtr emu False s)))) (GetTypeSize s)
             (fst (scan_bounds emu s)) (snd (scan_bounds emu s)) r [])"
  by (simp add: candidates_of_def OnNewSearchClicked_def Let_def case_prod_unfold scan_bounds_def
        split: option.splits sum.splits)

section \<open>The invariant of the candidates\<close>

lemma subseq_sorted_wrt:
  "subseq xs ys \<Longrightarrow> sorted_wrt P ys \<Longrightarrow> sorted_wrt P xs"
proof (induction rule: list_emb.induct)
  case (list_emb_Nil ys)
  then show ?case by simp
next
  case (list_emb_Cons xs ys y)
  then show ?case by simp
next
  case (list_emb_Cons2 x y xs ys)
  then have "\<forall>z \<in> set xs. P x z"
    by (auto elim!: list_emb_set)
  with list_emb_Cons2 show ?case by simp
qed

lemma offsets_ok_subseq:
  assumes "subseq xs ys" and "offsets_ok n lo hi ys"
  shows "offsets_ok n lo hi xs"
proof -
  from assms(1) have "set xs \<subseteq> set ys"
    by (auto elim!: list_emb_set)
  with assms(2) have "list_all (\<lambda>a. n dvd unat a \<and> lo \<le> a \<and> a < hi) xs"
    by (auto simp: offsets_ok_def list_all_iff)
  moreover from assms have "sorted_wrt (<) xs"
    by (auto simp: offsets_ok_def intro: subseq_sorted_wrt)
  ultimately show ?thesis by (simp add: offsets_ok_def)
qed

lemma offsets_ok_scan:
  assumes m: "map (\<lambda>c. unat (address c)) rs = map (\<lambda>i. unat lo + i * n) [0..<k]"
    and n: "0 < n" and d: "n dvd unat lo" and e: "unat lo + k * n = unat hi"
  shows "offsets_ok n lo hi (map address rs)"
proof -
  have el: "n dvd unat (address c) \<and> lo \<le> address c \<and> address c < hi" if "c \<in> set rs" for c
  proof -
    from that have "unat (address c) \<in> set (map (\<lambda>c. unat (address c)) rs)" by simp
    then obtain i where i: "i < k" and u: "unat (address c) = unat lo + i * n"
      unfolding m by auto
    from i n have "i * n < k * n" by simp
    then have "unat lo + i * n < unat hi" unfolding e [symmetric] by simp
    with u d show ?thesis
      by (simp add: word_le_nat_alt word_less_nat_alt)
  qed
  have "sorted_wrt (<) (map (\<lambda>i. unat lo + i * n) [0..<k])"
    using n by (simp add: sorted_wrt_map sorted_wrt_iff_nth_less)
  then have "sorted_wrt (<) (map (\<lambda>c. unat (address c)) rs)"
    unfolding m .
  then have "sorted_wrt (<) (map address rs)"
    by (simp add: sorted_wrt_map word_less_nat_alt)
  with el show ?thesis
    by (simp add: offsets_ok_def list_all_iff)
qed

lemma TimedUpdate_row_results:
  "TimedUpdate_row emu i s = Inr s' \<Longrightarrow> m_results s' = m_results s"
  by (auto simp: TimedUpdate_row_def Let_def split_def split: if_splits)

lemma TimedUpdate_loop_results:
  "TimedUpdate_loop emu i last_row s = Inr s' \<Longrightarrow> m_results s' = m_results s"
proof (induction emu i last_row s rule: TimedUpdate_loop.induct)
  case (1 emu i last_row s)
  show ?case
  proof (cases "i \<le> last_row")
    case True
    with "1.prems" obtain s1 where
      r: "TimedUpdate_row emu i s = Inr s1" and
      l: "TimedUpdate_loop emu (i + 1) last_row s1 = Inr s'"
      by (subst (asm) TimedUpdate_loop.simps) (auto split: sum.splits)
    from "1.IH" [OF True r l] TimedUpdate_row_results [OF r] show ?thesis by simp
  next
    case False
    with "1.prems" show ?thesis
      by (subst (asm) TimedUpdate_loop.simps) simp
  qed
qed

lemma TimedUpdate_results:
  "TimedUpdate emu rtop rbottom s = Inr s' \<Longrightarrow> m_results s' = m_results s"
  by (auto simp: TimedUpdate_def Let_def split_def split: if_splits
        dest!: TimedUpdate_loop_results)

lemma Reset_results: "m_results (Reset emu s) = []"
  by (simp add: Reset_def Let_def)

lemma Filter_subseq:
  assumes "FilterCheatSearchResults emu s val prev = Inr s'"
  shows "subseq (map address (m_results s')) (map address (m_results s))"
    and "m_search_type_size s' = m_search_type_size s"
proof -
  from assms obtain out where
    out: "filter_loop (deref emu (ptr (m_ram s))) (m_search_type_size s)
            (filters ! m_match_operation s) prev val (m_results s) [] = Inr out" and
    s': "s' = s\<lparr>m_results := out\<rparr>"
    by (auto simp: FilterCheatSearchResults_def split: if_splits sum.splits)
  from filter_loop_sub [OF out] s'
  show "subseq (map address (m_results s')) (map address (m_results s))" by auto
  from s' show "m_search_type_size s' = m_search_type_size s" by simp
qed

lemma NextSearch_subseq:
  assumes "NextSearch emu s = Inr s'"
  shows "subseq (map address (m_results s')) (map address (m_results s))"
    and "m_search_type_size s' = m_search_type_size s"
proof -
  from assms consider
      (label) l where "s' = s\<lparr>m_result_label := l\<rparr>"
    | (pass) v p s1 where "FilterCheatSearchResults emu s v p = Inr s1" "s' = Update emu s1"
    by (auto simp: NextSearch_def Let_def split: if_splits option.splits sum.splits)
  then have "subseq (map address (m_results s')) (map address (m_results s)) \<and>
      m_search_type_size s' = m_search_type_size s"
  proof cases
    case label
    then show ?thesis by simp
  next
    case pass
    with Filter_subseq [OF pass(1)] show ?thesis by simp
  qed
  then show "subseq (map address (m_results s')) (map address (m_results s))"
    and "m_search_type_size s' = m_search_type_size s" by simp_all
qed

section \<open>Properties of the display\<close>

lemma value_text_no_float: "filter is_F32 (snd (value_text emu n a)) = []"
  by (simp add: value_text_def)

lemma Update_row_display:
  "length (filter is_F32 (host_reads (Update_row emu i s))) =
     Suc (length (filter is_F32 (host_reads s)))"
  "int n \<le> r \<Longrightarrow> i < n \<Longrightarrow>
     item (m_match_table (Update_row emu i s)) (r, c) = item (m_match_table s) (r, c)"
  by (auto simp: Update_row_def Let_def split_def value_text_no_float setItem_def)

lemma Update_loop_display:
  "length (filter is_F32 (host_reads (Update_loop emu i n s))) =
     length (filter is_F32 (host_reads s)) + (n - i) \<and>
   (\<forall>r c. int n \<le> r \<longrightarrow>
      item (m_match_table (Update_loop emu i n s)) (r, c) = item (m_match_table s) (r, c))"
proof (induction emu i n s rule: Update_loop.induct)
  case (1 emu i n s)
  show ?case
  proof (cases "i < n")
    case True
    with "1.IH" show ?thesis
      by (subst (1 2) Update_loop.simps) (simp add: Update_row_display)
  next
    case False
    then show ?thesis by (subst (1 2) Update_loop.simps) simp
  qed
qed

lemma Update_many:
  assumes "MAX_RESULTS < int (length (m_results s))"
  shows "m_result_label (Update emu s) = number 10 (length (m_results s)) @ '' Match(es)''"
    and "rowCount (m_match_table (Update emu s)) = int (length (m_results s))"
    and "length (filter is_F32 (host_reads (Update emu s))) =
           length (filter is_F32 (host_reads s)) + 4096"
    and "4096 \<le> r \<Longrightarrow> item (m_match_table (Update emu s)) (r, c) = None"
proof -
  from assms have ne: "m_results s \<noteq> []" by (auto simp: MAX_RESULTS_def)
  show "m_result_label (Update emu s) = number 10 (length (m_results s)) @ '' Match(es)''"
    using assms ne by (simp add: Update_def Let_def split_def)
  show "rowCount (m_match_table (Update emu s)) = int (length (m_results s))"
    using assms ne by (simp add: Update_def Let_def split_def setRowCount_def)
  show "length (filter is_F32 (host_reads (Update emu s))) =
           length (filter is_F32 (host_reads s)) + 4096"
    using assms ne
    by (simp add: Update_def Let_def split_def Update_loop_display MAX_RESULTS_def)
  show "item (m_match_table (Update emu s)) (r, c) = None" if "4096 \<le> r"
    using assms ne that
    by (simp add: Update_def Let_def split_def Update_loop_display MAX_RESULTS_def
          setRowCount_def clearContents_def)
qed

lemma number_10000: "number 10 10000 = ''10000''"
  by (simp add: number.simps digit_char_def)


lemma Update_loop_two:
  "Update_loop emu 0 2 s = Update_row emu (Suc 0) (Update_row emu 0 s)"
proof -
  have "Update_loop emu 2 2 s' = s'" for s'
    by (subst Update_loop.simps) simp
  then have "Update_loop emu (Suc 0) 2 s' = Update_row emu (Suc 0) s'" for s'
    by (subst Update_loop.simps) (simp add: numeral_2_eq_2)
  then show ?thesis
    by (subst Update_loop.simps) simp
qed

lemma TimedUpdate_loop_two:
  "TimedUpdate_loop emu 0 1 s =
     (case TimedUpdate_row emu 0 s of
        Inl e \<Rightarrow> Inl e
      | Inr s' \<Rightarrow> TimedUpdate_row emu 1 s')"
proof -
  have "TimedUpdate_loop emu 2 1 s' = Inr s'" for s'
    by (subst TimedUpdate_loop.simps) simp
  then have "TimedUpdate_loop emu 1 1 s' = TimedUpdate_row emu 1 s'" for s'
    by (subst TimedUpdate_loop.simps) (simp split: sum.splits)
  then show ?thesis
    by (subst TimedUpdate_loop.simps) (simp split: sum.splits)
qed

lemma int_text_unavailable: "int_text ''---'' = ''-''"
  by (simp add: int_text_def toUInt_16_def hex_digit_def)



lemma table_simps:
  "rowCount (setItem r c txt t) = rowCount t"
  "item (setItem r c txt t) (r', c') =
     (if 0 \<le> r \<and> r < rowCount t \<and> 0 \<le> c \<and> c < 4 \<and> r' = r \<and> c' = c then Some txt
      else item t (r', c'))"
  "rowCount (setRowCount n t) = n"
  "item (setRowCount n t) (r', c') = (if r' < n then item t (r', c') else None)"
  "rowCount (clearContents t) = rowCount t"
  "item (clearContents t) (r', c') = None"
  by (simp_all add: setItem_def setRowCount_def clearContents_def)

lemmas display_defs = Update_def Update_row_def Update_loop_two TimedUpdate_def
  TimedUpdate_row_def TimedUpdate_loop_two MAX_RESULTS_def Let_def unmapped_emu_def
  example_emu_def two_candidates_def initial_state_def table_simps int_text_unavailable

lemma TimedUpdate_loop_one:
  "TimedUpdate_loop emu 0 0 s = TimedUpdate_row emu 0 s"
proof -
  have "TimedUpdate_loop emu 1 0 s' = Inr s'" for s'
    by (subst TimedUpdate_loop.simps) simp
  then show ?thesis
    by (subst TimedUpdate_loop.simps) (simp split: sum.splits)
qed

lemma TimedUpdate_row_display:
  assumes "0 \<le> i" and "i < int (length (m_results s))"
  shows "map_sum id m_result_label (TimedUpdate_row emu i s) = Inr (m_result_label s)"
    and "map_sum id (\<lambda>s. rowCount (m_match_table s)) (TimedUpdate_row emu i s) =
           Inr (rowCount (m_match_table s))"
  using assms by (simp_all add: TimedUpdate_row_def Let_def split_def table_simps)

lemma TimedUpdate_many:
  assumes "MAX_RESULTS < int (length (m_results s))" and "\<not> m_updating s"
  shows "map_sum id m_result_label (TimedUpdate emu 0 0 s) = Inr (too_many (length (m_results s)))"
    and "map_sum id (\<lambda>s. rowCount (m_match_table s)) (TimedUpdate emu 0 0 s) = Inr 4096"
proof -
  from assms(1) have ne: "m_results s \<noteq> []"
    by (cases "m_results s") (simp_all add: MAX_RESULTS_def)
  from ne have pos: "0 < int (length (m_results s))" by simp
  show "map_sum id m_result_label (TimedUpdate emu 0 0 s) = Inr (too_many (length (m_results s)))"
    using assms ne pos
    by (simp add: TimedUpdate_def Let_def TimedUpdate_loop_one TimedUpdate_row_display)
  show "map_sum id (\<lambda>s. rowCount (m_match_table s)) (TimedUpdate emu 0 0 s) = Inr 4096"
    using assms ne pos
    by (simp add: TimedUpdate_def Let_def TimedUpdate_loop_one TimedUpdate_row_display
          table_simps MAX_RESULTS_def)
qed

section \<open>Refine passes\<close>

text \<open>
  C1.  One Refine pass (\<^verbatim>\<open>FilterCheatSearchResults\<close>), for every entry of the combo box of
  comparisons and every value, with or without comparison to the recorded values: the
  offsets of the candidates it returns are a subsequence of the offsets it was given, in the
  same order, and it returns no more candidates than it was given.  The pass returns
  whenever the region is there and every candidate lies inside it.
\<close>

theorem refine_subset_order:
  "(\<forall>s'. FilterCheatSearchResults emu s val prev = Inr s' \<longrightarrow>
      subseq (map address (m_results s')) (map address (m_results s)) \<and>
      length (m_results s') \<le> length (m_results s)) \<and>
   (readable emu s \<and> m_match_operation s < length filters \<longrightarrow>
      (\<exists>s'. FilterCheatSearchResults emu s val prev = Inr s'))"
proof (intro conjI allI impI)
  fix s'
  assume "FilterCheatSearchResults emu s val prev = Inr s'"
  then obtain out where
    out: "filter_loop (deref emu (ptr (m_ram s))) (m_search_type_size s)
            (filters ! m_match_operation s) prev val (m_results s) [] = Inr out" and
    s': "s' = s\<lparr>m_results := out\<rparr>"
    by (auto simp: FilterCheatSearchResults_def split: if_splits sum.splits)
  from filter_loop_sub [OF out] s'
  show "subseq (map address (m_results s')) (map address (m_results s))"
    and "length (m_results s') \<le> length (m_results s)"
    by auto
next
  assume "readable emu s \<and> m_match_operation s < length filters"
  then have r: "readable emu s" and m: "m_match_operation s < length filters"
    by simp_all
  obtain buf where "FilterCheatSearchResults emu s val prev =
      Inr (s\<lparr>m_results := map (refreshed buf (m_search_type_size s))
             (filter (keeps buf (m_search_type_size s) (filters ! m_match_operation s) prev val)
                (m_results s))\<rparr>)"
    by (rule Filter_exact [OF r m])
  then show "\<exists>s'. FilterCheatSearchResults emu s val prev = Inr s'"
    by (rule exI)
qed

theorem refine_subset_order_witness:
  "FilterCheatSearchResults example_emu (two_candidates\<lparr>m_match_operation := Equal\<rparr>)
       0x05000000 False =
     Inr (two_candidates\<lparr>m_match_operation := Equal,
            m_results := [\<lparr>address = 0, old_value = 0x05000000\<rparr>]\<rparr>) \<and>
   readable example_emu (two_candidates\<lparr>m_match_operation := Equal\<rparr>) \<and>
   m_match_operation (two_candidates\<lparr>m_match_operation := Equal\<rparr>) < length filters \<and>
   subseq (map address (m_results (two_candidates\<lparr>m_match_operation := Equal,
            m_results := [\<lparr>address = 0, old_value = 0x05000000\<rparr>]\<rparr>)))
          (map address (m_results (two_candidates\<lparr>m_match_operation := Equal\<rparr>))) \<and>
   length (m_results (two_candidates\<lparr>m_match_operation := Equal,
            m_results := [\<lparr>address = 0, old_value = 0x05000000\<rparr>]\<rparr>))
     \<le> length (m_results (two_candidates\<lparr>m_match_operation := Equal\<rparr>)) \<and>
   (\<exists>s'. FilterCheatSearchResults example_emu (two_candidates\<lparr>m_match_operation := Equal\<rparr>)
           0x05000000 False = Inr s')"
proof -
  have e: "FilterCheatSearchResults example_emu (two_candidates\<lparr>m_match_operation := Equal\<rparr>)
       0x05000000 False =
     Inr (two_candidates\<lparr>m_match_operation := Equal,
            m_results := [\<lparr>address = 0, old_value = 0x05000000\<rparr>]\<rparr>)"
    by (simp add: FilterCheatSearchResults_def two_candidates_def initial_state_def
          example_emu_def filters_def Equal_def EQUAL_def GREATER_THAN_def LESS_THAN_def
          ram_read_def read_bytes_def bytes_of_u32_def cmp_mask_def memcpy_u32_def
          u32_of_bytes_def)
  have r: "readable example_emu (two_candidates\<lparr>m_match_operation := Equal\<rparr>)"
    by (simp add: readable_def two_candidates_def initial_state_def example_emu_def)
  have m: "m_match_operation (two_candidates\<lparr>m_match_operation := Equal\<rparr>) < length filters"
    by (simp add: filters_def Equal_def)
  note c = refine_subset_order [THEN conjunct1, rule_format, OF e]
  note d = refine_subset_order [THEN conjunct2, rule_format, OF conjI [OF r m]]
  show ?thesis
    by (intro conjI) (rule e r m conjunct1 [OF c] conjunct2 [OF c] d)+
qed

text \<open>
  C3.  A Refine pass over readable candidates keeps a candidate exactly when
  \<open>refine_keeps\<close> holds of the integer that the bytes now at its offset denote, most
  significant byte first, and of the integer that the operand's bytes denote: the pass
  compares the two byte ranges with \<^verbatim>\<open>memcmp\<close>, which orders byte ranges of one length as
  these integers are ordered, and keeps the candidate when the bit of the outcome (Equal,
  GreaterThan, LessThan) is set in the mask of the chosen comparison.  The five masks mean:
  Unknown keeps all, Not Equal keeps the different, Equal the equal, Greater than the
  greater, Less than the smaller.  On the candidates at offsets 0 and 4 recorded with 5 and
  9, memory unchanged, the pass for Equal with the value 5 returns the candidate at offset
  0 alone.
\<close>

theorem refine_classifies:
  "(readable emu s \<and> m_match_operation s < length filters \<longrightarrow>
      (\<exists>s'. FilterCheatSearchResults emu s val prev = Inr s' \<and>
         map address (m_results s') =
         map address (filter (\<lambda>r. refine_keeps (m_match_operation s)
                (be_value (live_bytes emu s r))
                (be_value (if prev then recorded_bytes s r else operand_bytes s val)))
              (m_results s)))) \<and>
   (length xs = length ys \<longrightarrow> cmp_mask (memcmp xs ys) = three_way (be_value xs) (be_value ys)) \<and>
   refine_keeps Unknown a b \<and>
   (refine_keeps NotEqual a b \<longleftrightarrow> a \<noteq> b) \<and>
   (refine_keeps Equal a b \<longleftrightarrow> a = b) \<and>
   (refine_keeps GreaterThan a b \<longleftrightarrow> b < a) \<and>
   (refine_keeps LessThan a b \<longleftrightarrow> a < b) \<and>
   FilterCheatSearchResults example_emu (two_candidates\<lparr>m_match_operation := Equal\<rparr>)
       (SwapValue two_candidates 5) False =
     Inr (two_candidates\<lparr>m_match_operation := Equal,
            m_results := [\<lparr>address = 0, old_value = 0x05000000\<rparr>]\<rparr>) \<and>
   map (\<lambda>r. be_value (recorded_bytes two_candidates r)) (m_results two_candidates) = [5, 9]"
proof (intro conjI impI)
  assume "readable emu s \<and> m_match_operation s < length filters"
  then have r: "readable emu s" and m: "m_match_operation s < length filters"
    by simp_all
  show "\<exists>s'. FilterCheatSearchResults emu s val prev = Inr s' \<and>
         map address (m_results s') =
         map address (filter (\<lambda>r. refine_keeps (m_match_operation s)
                (be_value (live_bytes emu s r))
                (be_value (if prev then recorded_bytes s r else operand_bytes s val)))
              (m_results s))"
    by (rule Filter_spec [OF r m, of val prev]) blast
next
  assume "length xs = length ys"
  then show "cmp_mask (memcmp xs ys) = three_way (be_value xs) (be_value ys)"
    by (rule memcmp_three_way)
next
  show "refine_keeps Unknown a b"
    by (simp add: refine_keeps_def three_way_def filters_def Unknown_def EQUAL_def
          GREATER_THAN_def LESS_THAN_def)
  show "refine_keeps NotEqual a b \<longleftrightarrow> a \<noteq> b"
    by (simp add: refine_keeps_def three_way_def filters_def NotEqual_def EQUAL_def
          GREATER_THAN_def LESS_THAN_def)
  show "refine_keeps Equal a b \<longleftrightarrow> a = b"
    by (simp add: refine_keeps_def three_way_def filters_def Equal_def EQUAL_def
          GREATER_THAN_def LESS_THAN_def)
  show "refine_keeps GreaterThan a b \<longleftrightarrow> b < a"
    by (auto simp: refine_keeps_def three_way_def filters_def GreaterThan_def EQUAL_def
          GREATER_THAN_def LESS_THAN_def)
  show "refine_keeps LessThan a b \<longleftrightarrow> a < b"
    by (simp add: refine_keeps_def three_way_def filters_def LessThan_def EQUAL_def
          GREATER_THAN_def LESS_THAN_def)
  show "FilterCheatSearchResults example_emu (two_candidates\<lparr>m_match_operation := Equal\<rparr>)
       (SwapValue two_candidates 5) False =
     Inr (two_candidates\<lparr>m_match_operation := Equal,
            m_results := [\<lparr>address = 0, old_value = 0x05000000\<rparr>]\<rparr>)"
    by (simp add: eval_defs SwapValue_def GetTypeSize_def swap32_def)
  show "map (\<lambda>r. be_value (recorded_bytes two_candidates r)) (m_results two_candidates) = [5, 9]"
    by (simp add: recorded_bytes_def eval_defs)
qed


theorem refine_classifies_witness:
  "readable example_emu (two_candidates\<lparr>m_match_operation := Equal\<rparr>) \<and>
   m_match_operation (two_candidates\<lparr>m_match_operation := Equal\<rparr>) < length filters \<and>
   (\<exists>s'. FilterCheatSearchResults example_emu (two_candidates\<lparr>m_match_operation := Equal\<rparr>)
            0x05000000 False = Inr s' \<and>
      map address (m_results s') =
      map address (filter (\<lambda>r. refine_keeps
             (m_match_operation (two_candidates\<lparr>m_match_operation := Equal\<rparr>))
             (be_value (live_bytes example_emu (two_candidates\<lparr>m_match_operation := Equal\<rparr>) r))
             (be_value (if False
                        then recorded_bytes (two_candidates\<lparr>m_match_operation := Equal\<rparr>) r
                        else operand_bytes (two_candidates\<lparr>m_match_operation := Equal\<rparr>)
                               0x05000000)))
           (m_results (two_candidates\<lparr>m_match_operation := Equal\<rparr>)))) \<and>
   length [0, 0, 0, 5 :: u8] = length [0, 0, 0, 9 :: u8] \<and>
   cmp_mask (memcmp [0, 0, 0, 5] [0, 0, 0, 9]) = three_way (be_value [0, 0, 0, 5]) (be_value [0, 0, 0, 9])"
proof -
  have r: "readable example_emu (two_candidates\<lparr>m_match_operation := Equal\<rparr>)"
    by (simp add: eval_defs)
  have m: "m_match_operation (two_candidates\<lparr>m_match_operation := Equal\<rparr>) < length filters"
    by (simp add: filters_def Equal_def)
  note c = refine_classifies [THEN conjunct1, rule_format, OF conjI [OF r m]]
  have l: "length [0, 0, 0, 5 :: u8] = length [0, 0, 0, 9 :: u8]"
    by simp
  note o = refine_classifies [THEN conjunct2, THEN conjunct1, rule_format, OF l]
  show ?thesis
    by (intro conjI) (rule r m c l o)+
qed

text \<open>
  C6.  A Refine pass with Unknown, whose mask has all three bits, keeps every candidate, in
  order, whatever the memory holds now, the comparison value and the recorded values.
\<close>

theorem unknown_never_filters:
  "m_match_operation s = Unknown \<Longrightarrow>
     (\<forall>s'. FilterCheatSearchResults emu s val prev = Inr s' \<longrightarrow>
        map address (m_results s') = map address (m_results s) \<and>
        length (m_results s') = length (m_results s)) \<and>
     (readable emu s \<longrightarrow> (\<exists>s'. FilterCheatSearchResults emu s val prev = Inr s'))"
proof (intro conjI allI impI)
  fix s'
  assume op: "m_match_operation s = Unknown"
    and "FilterCheatSearchResults emu s val prev = Inr s'"
  then obtain out where
    out: "filter_loop (deref emu (ptr (m_ram s))) (m_search_type_size s)
            (filters ! Unknown) prev val (m_results s) [] = Inr out" and
    s': "s' = s\<lparr>m_results := out\<rparr>"
    by (auto simp: FilterCheatSearchResults_def split: if_splits sum.splits)
  from filter_loop_all [OF unknown_mask out] s'
  show a: "map address (m_results s') = map address (m_results s)" by simp
  from arg_cong [OF a, of length]
  show "length (m_results s') = length (m_results s)" by simp
next
  assume op: "m_match_operation s = Unknown" and r: "readable emu s"
  have m: "m_match_operation s < length filters"
    by (simp add: op Unknown_def filters_def)
  obtain s' where "FilterCheatSearchResults emu s val prev = Inr s'"
    by (rule Filter_spec [OF r m])
  then show "\<exists>s'. FilterCheatSearchResults emu s val prev = Inr s'"
    by (rule exI)
qed

theorem unknown_never_filters_witness:
  "m_match_operation two_candidates = Unknown \<and>
   readable mutated_emu two_candidates \<and>
   FilterCheatSearchResults mutated_emu two_candidates 0 True =
     Inr (two_candidates\<lparr>m_results := [\<lparr>address = 0, old_value = 0x06000000\<rparr>,
                                          \<lparr>address = 4, old_value = 0x09000000\<rparr>]\<rparr>) \<and>
   map address (m_results (two_candidates\<lparr>m_results := [\<lparr>address = 0, old_value = 0x06000000\<rparr>,
                                          \<lparr>address = 4, old_value = 0x09000000\<rparr>]\<rparr>))
     = map address (m_results two_candidates) \<and>
   (\<exists>s'. FilterCheatSearchResults mutated_emu two_candidates 0 True = Inr s')"
proof -
  have op: "m_match_operation two_candidates = Unknown"
    by (simp add: two_candidates_def initial_state_def Unknown_def)
  have r: "readable mutated_emu two_candidates"
    by (simp add: eval_defs)
  have e: "FilterCheatSearchResults mutated_emu two_candidates 0 True =
     Inr (two_candidates\<lparr>m_results := [\<lparr>address = 0, old_value = 0x06000000\<rparr>,
                                          \<lparr>address = 4, old_value = 0x09000000\<rparr>]\<rparr>)"
    by (simp add: eval_defs)
  note c = unknown_never_filters [OF op, THEN conjunct1, rule_format, OF e, THEN conjunct1]
  note d = unknown_never_filters [OF op, THEN conjunct2, rule_format, OF r]
  show ?thesis
    by (intro conjI) (rule op r e c d)+
qed

text \<open>
  C7.  With a blank value, \<^verbatim>\<open>NextSearch\<close> compares every candidate with the bytes recorded
  in its own \<^verbatim>\<open>old_value\<close>; and after any Refine pass over readable candidates, every
  candidate kept has recorded the bytes the pass has just read at its offset, so these are
  what the next pass with a blank value compares with.
\<close>

theorem blank_value_compares_with_recorded:
  "(readable emu s \<and> m_match_operation s < length filters \<and> isEmpty (m_match_value s) \<longrightarrow>
      (\<exists>s'. NextSearch emu s = Inr s' \<and>
         map address (m_results s') =
         map address (filter (\<lambda>r. refine_keeps (m_match_operation s)
                (be_value (live_bytes emu s r)) (be_value (recorded_bytes s r)))
              (m_results s)) \<and>
         list_all (\<lambda>r'. recorded_bytes s' r' = live_bytes emu s' r') (m_results s'))) \<and>
   (readable emu s \<and> m_match_operation s < length filters \<longrightarrow>
      (\<exists>s'. FilterCheatSearchResults emu s val prev = Inr s' \<and>
         list_all (\<lambda>r'. recorded_bytes s' r' = live_bytes emu s' r') (m_results s')))"
proof (intro conjI impI)
  assume "readable emu s \<and> m_match_operation s < length filters \<and> isEmpty (m_match_value s)"
  then have r: "readable emu s" and m: "m_match_operation s < length filters"
    and blank: "isEmpty (m_match_value s)"
    by simp_all
  from r obtain b where p: "ptr (m_ram s) = Some b"
    by (cases "ptr (m_ram s)") (simp_all add: readable_def)
  obtain s1 where
    F: "FilterCheatSearchResults emu s 0 True = Inr s1" and
    adr: "map address (m_results s1) =
         map address (filter (\<lambda>r. refine_keeps (m_match_operation s)
                (be_value (live_bytes emu s r))
                (be_value (if True then recorded_bytes s r else operand_bytes s 0)))
              (m_results s))" and
    upd: "list_all (\<lambda>r'. recorded_bytes s1 r' = live_bytes emu s1 r') (m_results s1)"
    by (rule Filter_spec [OF r m, of 0 True])
  have N: "NextSearch emu s = Inr (Update emu s1)"
    using p blank F by (simp add: NextSearch_def Let_def)
  show "\<exists>s'. NextSearch emu s = Inr s' \<and>
         map address (m_results s') =
         map address (filter (\<lambda>r. refine_keeps (m_match_operation s)
                (be_value (live_bytes emu s r)) (be_value (recorded_bytes s r)))
              (m_results s)) \<and>
         list_all (\<lambda>r'. recorded_bytes s' r' = live_bytes emu s' r') (m_results s')"
    using N adr upd by (intro exI [of _ "Update emu s1"]) simp
next
  assume "readable emu s \<and> m_match_operation s < length filters"
  then have r: "readable emu s" and m: "m_match_operation s < length filters"
    by simp_all
  show "\<exists>s'. FilterCheatSearchResults emu s val prev = Inr s' \<and>
         list_all (\<lambda>r'. recorded_bytes s' r' = live_bytes emu s' r') (m_results s')"
    by (rule Filter_spec [OF r m, of val prev]) blast
qed


theorem blank_value_compares_with_recorded_witness:
  "readable mutated_emu (two_candidates\<lparr>m_match_operation := NotEqual\<rparr>) \<and>
   m_match_operation (two_candidates\<lparr>m_match_operation := NotEqual\<rparr>) < length filters \<and>
   isEmpty (m_match_value (two_candidates\<lparr>m_match_operation := NotEqual\<rparr>)) \<and>
   (\<exists>s'. NextSearch mutated_emu (two_candidates\<lparr>m_match_operation := NotEqual\<rparr>) = Inr s' \<and>
      map address (m_results s') =
      map address (filter (\<lambda>r. refine_keeps
             (m_match_operation (two_candidates\<lparr>m_match_operation := NotEqual\<rparr>))
             (be_value (live_bytes mutated_emu (two_candidates\<lparr>m_match_operation := NotEqual\<rparr>) r))
             (be_value (recorded_bytes (two_candidates\<lparr>m_match_operation := NotEqual\<rparr>) r)))
           (m_results (two_candidates\<lparr>m_match_operation := NotEqual\<rparr>))) \<and>
      list_all (\<lambda>r'. recorded_bytes s' r' = live_bytes mutated_emu s' r') (m_results s')) \<and>
   map address (filter (\<lambda>r. refine_keeps
             (m_match_operation (two_candidates\<lparr>m_match_operation := NotEqual\<rparr>))
             (be_value (live_bytes mutated_emu (two_candidates\<lparr>m_match_operation := NotEqual\<rparr>) r))
             (be_value (recorded_bytes (two_candidates\<lparr>m_match_operation := NotEqual\<rparr>) r)))
           (m_results (two_candidates\<lparr>m_match_operation := NotEqual\<rparr>))) = [0] \<and>
   (\<exists>s'. FilterCheatSearchResults mutated_emu (two_candidates\<lparr>m_match_operation := NotEqual\<rparr>)
           0x05000000 False = Inr s' \<and>
      list_all (\<lambda>r'. recorded_bytes s' r' = live_bytes mutated_emu s' r') (m_results s'))"
proof -
  have r: "readable mutated_emu (two_candidates\<lparr>m_match_operation := NotEqual\<rparr>)"
    by (simp add: eval_defs)
  have m: "m_match_operation (two_candidates\<lparr>m_match_operation := NotEqual\<rparr>) < length filters"
    by (simp add: filters_def NotEqual_def)
  have b: "isEmpty (m_match_value (two_candidates\<lparr>m_match_operation := NotEqual\<rparr>))"
    by (simp add: two_candidates_def initial_state_def)
  note c = blank_value_compares_with_recorded [THEN conjunct1, rule_format,
      OF conjI [OF r conjI [OF m b]]]
  have f: "map address (filter (\<lambda>r. refine_keeps
             (m_match_operation (two_candidates\<lparr>m_match_operation := NotEqual\<rparr>))
             (be_value (live_bytes mutated_emu (two_candidates\<lparr>m_match_operation := NotEqual\<rparr>) r))
             (be_value (recorded_bytes (two_candidates\<lparr>m_match_operation := NotEqual\<rparr>) r)))
           (m_results (two_candidates\<lparr>m_match_operation := NotEqual\<rparr>))) = [0]"
    by (simp add: eval_defs refine_keeps_def three_way_def live_bytes_def recorded_bytes_def
          cur_bytes_def)
  note d = blank_value_compares_with_recorded [THEN conjunct2, rule_format, OF conjI [OF r m]]
  show ?thesis
    by (intro conjI) (rule r m b c f d)+
qed


section \<open>Search values\<close>

text \<open>
  C8.  For every number below \<open>2 ^ (8 * n)\<close>, where \<open>n\<close> is the width \<^verbatim>\<open>GetTypeSize\<close> gives,
  the first \<open>n\<close> bytes of the swapped value, as they lie in host memory, denote that number
  most significant byte first.  \<^verbatim>\<open>NextSearch\<close> hands exactly this value to the filter when
  the user has entered an integer.  When the search is set to floats and the user has entered
  a float, \<^verbatim>\<open>NextSearch\<close> hands the swapped bit pattern of the float to the filter: its four
  bytes in host memory are the bytes of the bit pattern most significant byte first, and
  decode to the bit pattern.  The decimal number 100 at width 2 comes back as 100; a search
  for the float 1.0 finds the bytes 3f 80 00 00 at offset 0, and a search for the decimal
  number 5 finds the bytes 00 00 00 05 at offset 0.
\<close>

theorem encode_decode_roundtrip:
  "(v < 2 ^ (8 * GetTypeSize s) \<longrightarrow>
      be_value (take (GetTypeSize s) (bytes_of_u32 (SwapValue s (of_nat v)))) = v) \<and>
   (ptr (m_ram s) \<noteq> None \<and> \<not> isEmpty (m_match_value s) \<and> m_match_length s \<noteq> 3 \<and>
    toULong (m_match_value s)
      (if m_match_decimal s then 10 else if m_match_hexadecimal s then 16 else 8) = Some v \<longrightarrow>
      NextSearch emu s =
        (case FilterCheatSearchResults emu s (SwapValue s (of_nat v)) False of
           Inl e \<Rightarrow> Inl e
         | Inr s' \<Rightarrow> Inr (Update emu s'))) \<and>
   (ptr (m_ram s) \<noteq> None \<and> \<not> isEmpty (m_match_value s) \<and> m_match_length s = 3 \<and>
    toFloat (m_match_value s) = Some w \<longrightarrow>
      NextSearch emu s =
        (case FilterCheatSearchResults emu s (SwapValue s w) False of
           Inl e \<Rightarrow> Inl e
         | Inr s' \<Rightarrow> Inr (Update emu s')) \<and>
      bytes_of_u32 (SwapValue s w) = rev (bytes_of_u32 w) \<and>
      be_value (take (GetTypeSize s) (bytes_of_u32 (SwapValue s w))) = unat w) \<and>
   be_value (take 2 (bytes_of_u32 (SwapValue (initial_state\<lparr>m_match_length := 1\<rparr>) 100))) = 100 \<and>
   (\<exists>s'. NextSearch float_emu float_one = Inr s' \<and> map address (m_results s') = [0]) \<and>
   (\<exists>s'. NextSearch example_emu decimal_five = Inr s' \<and> map address (m_results s') = [0])"
proof (intro conjI impI)
  assume "v < 2 ^ (8 * GetTypeSize s)"
  then show "be_value (take (GetTypeSize s) (bytes_of_u32 (SwapValue s (of_nat v)))) = v"
    by (rule swap_roundtrip)
next
  assume "ptr (m_ram s) \<noteq> None \<and> \<not> isEmpty (m_match_value s) \<and> m_match_length s \<noteq> 3 \<and>
    toULong (m_match_value s)
      (if m_match_decimal s then 10 else if m_match_hexadecimal s then 16 else 8) = Some v"
  then show "NextSearch emu s =
        (case FilterCheatSearchResults emu s (SwapValue s (of_nat v)) False of
           Inl e \<Rightarrow> Inl e
         | Inr s' \<Rightarrow> Inr (Update emu s'))"
    by (intro NextSearch_integer) simp_all
next
  assume a: "ptr (m_ram s) \<noteq> None \<and> \<not> isEmpty (m_match_value s) \<and> m_match_length s = 3 \<and>
    toFloat (m_match_value s) = Some w"
  then show "NextSearch emu s =
        (case FilterCheatSearchResults emu s (SwapValue s w) False of
           Inl e \<Rightarrow> Inl e
         | Inr s' \<Rightarrow> Inr (Update emu s'))"
    by (intro NextSearch_float) simp_all
  from a have f: "m_match_length s = 3"
    by simp
  show "bytes_of_u32 (SwapValue s w) = rev (bytes_of_u32 w)"
    by (rule swap_float(1) [OF f])
  show "be_value (take (GetTypeSize s) (bytes_of_u32 (SwapValue s w))) = unat w"
    by (rule swap_float(2) [OF f])
next
  have "GetTypeSize (initial_state\<lparr>m_match_length := 1\<rparr>) = 2"
    by (simp add: GetTypeSize_def)
  with swap_roundtrip [of 100 "initial_state\<lparr>m_match_length := 1\<rparr>"]
  show "be_value (take 2 (bytes_of_u32 (SwapValue (initial_state\<lparr>m_match_length := 1\<rparr>) 100))) = 100"
    by simp
next
  show "\<exists>s'. NextSearch float_emu float_one = Inr s' \<and> map address (m_results s') = [0]"
    by (rule float_example)
  show "\<exists>s'. NextSearch example_emu decimal_five = Inr s' \<and> map address (m_results s') = [0]"
    by (rule decimal_example)
qed

theorem encode_decode_roundtrip_witness:
  "(100::nat) < 2 ^ (8 * GetTypeSize (initial_state\<lparr>m_match_length := 1\<rparr>)) \<and>
   be_value (take (GetTypeSize (initial_state\<lparr>m_match_length := 1\<rparr>))
     (bytes_of_u32 (SwapValue (initial_state\<lparr>m_match_length := 1\<rparr>) (of_nat 100)))) = 100 \<and>
   ptr (m_ram decimal_five) \<noteq> None \<and> \<not> isEmpty (m_match_value decimal_five) \<and>
   m_match_length decimal_five \<noteq> 3 \<and>
   toULong (m_match_value decimal_five)
      (if m_match_decimal decimal_five then 10
       else if m_match_hexadecimal decimal_five then 16 else 8) = Some 5 \<and>
   NextSearch example_emu decimal_five =
     (case FilterCheatSearchResults example_emu decimal_five
             (SwapValue decimal_five (of_nat 5)) False of
        Inl e \<Rightarrow> Inl e
      | Inr s' \<Rightarrow> Inr (Update example_emu s')) \<and>
   ptr (m_ram float_one) \<noteq> None \<and> \<not> isEmpty (m_match_value float_one) \<and>
   m_match_length float_one = 3 \<and>
   toFloat (m_match_value float_one) = Some 0x3f800000 \<and>
   NextSearch float_emu float_one =
     (case FilterCheatSearchResults float_emu float_one
             (SwapValue float_one 0x3f800000) False of
        Inl e \<Rightarrow> Inl e
      | Inr s' \<Rightarrow> Inr (Update float_emu s')) \<and>
   bytes_of_u32 (SwapValue float_one 0x3f800000) = rev (bytes_of_u32 0x3f800000) \<and>
   be_value (take (GetTypeSize float_one) (bytes_of_u32 (SwapValue float_one 0x3f800000))) =
     unat (0x3f800000 :: u32)"
proof -
  have h1: "(100::nat) < 2 ^ (8 * GetTypeSize (initial_state\<lparr>m_match_length := 1\<rparr>))"
    by (simp add: GetTypeSize_def)
  have h2: "ptr (m_ram decimal_five) \<noteq> None \<and> \<not> isEmpty (m_match_value decimal_five) \<and>
      m_match_length decimal_five \<noteq> 3 \<and>
      toULong (m_match_value decimal_five)
        (if m_match_decimal decimal_five then 10
         else if m_match_hexadecimal decimal_five then 16 else 8) = Some 5"
    by (simp add: decimal_five_def two_candidates_def initial_state_def)
  have h3: "ptr (m_ram float_one) \<noteq> None \<and> \<not> isEmpty (m_match_value float_one) \<and>
      m_match_length float_one = 3 \<and>
      toFloat (m_match_value float_one) = Some 0x3f800000"
    by (simp add: float_one_def two_candidates_def initial_state_def)
  note c1 = encode_decode_roundtrip [THEN conjunct1, rule_format, OF h1]
  note c2 = encode_decode_roundtrip [THEN conjunct2, THEN conjunct1, rule_format, OF h2]
  note c3 = encode_decode_roundtrip [THEN conjunct2, THEN conjunct2, THEN conjunct1,
      rule_format, OF h3]
  note h2a = h2 [THEN conjunct1]
  note h2b = h2 [THEN conjunct2, THEN conjunct1]
  note h2c = h2 [THEN conjunct2, THEN conjunct2, THEN conjunct1]
  note h2d = h2 [THEN conjunct2, THEN conjunct2, THEN conjunct2]
  note h3a = h3 [THEN conjunct1]
  note h3b = h3 [THEN conjunct2, THEN conjunct1]
  note h3c = h3 [THEN conjunct2, THEN conjunct2, THEN conjunct1]
  note h3d = h3 [THEN conjunct2, THEN conjunct2, THEN conjunct2]
  note c3a = c3 [THEN conjunct1]
  note c3b = c3 [THEN conjunct2, THEN conjunct1]
  note c3c = c3 [THEN conjunct2, THEN conjunct2]
  show ?thesis
    by (intro conjI) (rule h1 c1 h2a h2b h2c h2d c2 h3a h3b h3c h3d c3a c3b c3c)+
qed


section \<open>New searches\<close>

text \<open>
  C4.  When the game runs and the selected region is allocated, holds the bytes its size
  announces and has a size that is a multiple of the width of the search,
  \<^verbatim>\<open>OnNewSearchClicked\<close> returns with exactly one candidate for every offset of the computed
  range \<open>[range_start, range_end)\<close> that is a multiple of the width, in ascending order, and
  each candidate has recorded the bytes now at its offset.  For the sixteen-byte region, a
  width of 4 and blank bounds the offsets are 0, 4, 8 and 12.
\<close>

theorem initialize_populates:
  "(IsRunningAndStarted emu \<and> region_ok emu s \<longrightarrow>
      (\<exists>s'. OnNewSearchClicked emu r s = Some (Inr s') \<and>
         map (\<lambda>c. unat (address c)) (m_results s') =
           filter (\<lambda>a. GetTypeSize s dvd a)
             [unat (fst (scan_bounds emu s))..<unat (snd (scan_bounds emu s))] \<and>
         m_search_type_size s' = GetTypeSize s \<and>
         list_all (\<lambda>c. recorded_bytes s' c = live_bytes emu s' c) (m_results s'))) \<and>
   (\<exists>s'. OnNewSearchClicked example_emu r no_bounds = Some (Inr s') \<and>
         map address (m_results s') = [0, 4, 8, 12] \<and>
         map (\<lambda>c. be_value (recorded_bytes s' c)) (m_results s') = [5, 9, 0, 0])"
proof (intro conjI impI)
  assume "IsRunningAndStarted emu \<and> region_ok emu s"
  then have run: "IsRunningAndStarted emu" and ok: "region_ok emu s" by simp_all
  let ?n = "GetTypeSize s"
  let ?lo = "fst (scan_bounds emu s)" and ?hi = "snd (scan_bounds emu s)"
  obtain buf k s' where
    buf: "deref emu (ptr (m_ram (MemoryPtr emu False s))) = Some buf" and
    len: "unat (size_ram (m_ram (MemoryPtr emu False s))) \<le> length buf" and
    eq: "unat ?lo + k * ?n = unat ?hi" and
    O: "OnNewSearchClicked emu r s = Some (Inr s')" and
    res: "m_results s' = scan_list buf ?n ?lo k r" and
    n: "m_search_type_size s' = ?n" and
    ram: "m_ram s' = m_ram (MemoryPtr emu False s)"
    by (rule OnNewSearchClicked_exact [OF run ok])
  have lt: "unat ?lo + k * ?n < 2 ^ 32"
    unfolding eq using unsigned_less [of ?hi, where 'a = nat] by simp
  have "?hi \<le> size_ram (m_ram (MemoryPtr emu False s))"
    using search_range_within [of "m_ram (MemoryPtr emu False s)" "m_range_start s" "m_range_end s"]
    by (simp add: scan_bounds_def)
  with len have hb: "unat ?lo + k * ?n \<le> length buf"
    unfolding eq by (simp add: word_le_nat_alt)
  have dlo: "?n dvd unat ?lo"
    unfolding scan_bounds_def
    by (rule dvd_trans [OF GetTypeSize_facts(3) search_range_dvd])
  have "map (\<lambda>c. unat (address c)) (m_results s') = map (\<lambda>i. unat ?lo + i * ?n) [0..<k]"
    unfolding res by (rule scan_list_address [OF lt])
  also have "\<dots> = filter (\<lambda>a. ?n dvd a) [unat ?lo..<unat ?lo + k * ?n]"
    by (rule filter_dvd_upt [OF GetTypeSize_facts(1) dlo, symmetric])
  finally have adr: "map (\<lambda>c. unat (address c)) (m_results s') =
      filter (\<lambda>a. ?n dvd a) [unat ?lo..<unat ?hi]"
    unfolding eq .
  have rec: "list_all (\<lambda>c. recorded_bytes s' c = live_bytes emu s' c) (m_results s')"
    using scan_list_recorded [OF GetTypeSize_facts(2) hb lt, of r]
    by (simp add: res recorded_bytes_def live_bytes_def n ram buf cur_bytes_def)
  from O adr n rec
  show "\<exists>s'. OnNewSearchClicked emu r s = Some (Inr s') \<and>
         map (\<lambda>c. unat (address c)) (m_results s') =
           filter (\<lambda>a. ?n dvd a) [unat ?lo..<unat ?hi] \<and>
         m_search_type_size s' = ?n \<and>
         list_all (\<lambda>c. recorded_bytes s' c = live_bytes emu s' c) (m_results s')"
    by blast
next
  show "\<exists>s'. OnNewSearchClicked example_emu r no_bounds = Some (Inr s') \<and>
         map address (m_results s') = [0, 4, 8, 12] \<and>
         map (\<lambda>c. be_value (recorded_bytes s' c)) (m_results s') = [5, 9, 0, 0]"
    by (simp add: OnNewSearchClicked_def MemoryPtr_def no_bounds_def initial_state_def
        example_emu_def GetTypeSize_def search_range_def Let_def scan_loop.simps
        ram_read_def read_bytes_def memcpy_u32_def recorded_bytes_def
        bytes_of_u32_of_bytes)
qed

theorem initialize_populates_witness:
  "IsRunningAndStarted example_emu \<and> region_ok example_emu no_bounds \<and>
   (\<exists>s'. OnNewSearchClicked example_emu \<lparr>address = 0, old_value = 0\<rparr> no_bounds = Some (Inr s') \<and>
         map (\<lambda>c. unat (address c)) (m_results s') =
           filter (\<lambda>a. GetTypeSize no_bounds dvd a)
             [unat (fst (scan_bounds example_emu no_bounds))..<
              unat (snd (scan_bounds example_emu no_bounds))] \<and>
         m_search_type_size s' = GetTypeSize no_bounds \<and>
         list_all (\<lambda>c. recorded_bytes s' c = live_bytes example_emu s' c) (m_results s')) \<and>
   scan_bounds example_emu no_bounds = (0, 16) \<and> GetTypeSize no_bounds = 4"
proof -
  have run: "IsRunningAndStarted example_emu"
    by (simp add: example_emu_def)
  have ok: "region_ok example_emu no_bounds"
    by (simp add: region_ok_def MemoryPtr_def no_bounds_def initial_state_def example_emu_def
          GetTypeSize_def)
  have sb: "scan_bounds example_emu no_bounds = (0, 16)"
    by (simp add: scan_bounds_def search_range_def MemoryPtr_def no_bounds_def
          initial_state_def example_emu_def Let_def)
  have n: "GetTypeSize no_bounds = 4"
    by (simp add: GetTypeSize_def no_bounds_def initial_state_def)
  note c = initialize_populates [THEN conjunct1, rule_format, OF conjI [OF run ok]]
  show ?thesis
    by (intro conjI) (rule run ok c sb n)+
qed

text \<open>
  C5.  The bounds of a new search.  The range computed always lies inside the region.  A
  start that does not parse gives the start 0 and an end that does not parse gives the end
  of the region; inverted bounds give the whole region; a bound whose offset, aligned down
  to a multiple of 16, lies at or past the size of the region gives the limit of the region
  on its side.  When the size of the region is a multiple of 16, bounds that both lie
  outside the region give the range of a search without bounds, and the new search leaves
  the same candidates.  A custom start that is accepted is the offset of the typed address
  aligned down to a multiple of 16.
\<close>

theorem bounds_clamped:
  "(fst (search_range ram st et) \<le> snd (search_range ram st et) \<and>
    snd (search_range ram st et) \<le> size_ram ram) \<and>
   fst (search_range ram None et) = 0 \<and>
   snd (search_range ram st None) = size_ram ram \<and>
   (b - base ram \<le> a - base ram \<longrightarrow>
      search_range ram (Some a) (Some b) = (0, size_ram ram)) \<and>
   (size_ram ram \<le> custom_bound ram a \<longrightarrow> fst (search_range ram (Some a) et) = 0) \<and>
   (size_ram ram \<le> custom_bound ram b \<longrightarrow> snd (search_range ram st (Some b)) = size_ram ram) \<and>
   (16 dvd unat (size_ram ram) \<and> size_ram ram \<le> a - base ram \<and> size_ram ram \<le> b - base ram \<longrightarrow>
      search_range ram (Some a) (Some b) = search_range ram None None \<and>
      search_range ram None None = (0, size_ram ram)) \<and>
   (16 dvd unat (size_ram (m_ram (MemoryPtr emu False s))) \<and>
    size_ram (m_ram (MemoryPtr emu False s)) \<le> a - base (m_ram (MemoryPtr emu False s)) \<and>
    size_ram (m_ram (MemoryPtr emu False s)) \<le> b - base (m_ram (MemoryPtr emu False s)) \<longrightarrow>
      candidates_of (OnNewSearchClicked emu r (s\<lparr>m_range_start := Some a, m_range_end := Some b\<rparr>)) =
      candidates_of (OnNewSearchClicked emu r (s\<lparr>m_range_start := None, m_range_end := None\<rparr>))) \<and>
   (fst (search_range ram (Some a) et) = 0 \<or>
    fst (search_range ram (Some a) et) = custom_bound ram a) \<and>
   unat (custom_bound ram a) = unat (a - base ram) div 16 * 16"
proof (intro conjI impI)
  show "fst (search_range ram st et) \<le> snd (search_range ram st et)"
    and "snd (search_range ram st et) \<le> size_ram ram"
    using search_range_within [of ram st et] by simp_all
  show "fst (search_range ram None et) = 0" "snd (search_range ram st None) = size_ram ram"
    by (rule search_range_malformed)+
  show "fst (search_range ram (Some a) et) = 0 \<or>
        fst (search_range ram (Some a) et) = custom_bound ram a"
    by (auto simp: search_range_cases Let_def)
  show "unat (custom_bound ram a) = unat (a - base ram) div 16 * 16"
    by (simp add: custom_bound_def unat_align)
next
  assume "b - base ram \<le> a - base ram"
  then show "search_range ram (Some a) (Some b) = (0, size_ram ram)"
    by (rule search_range_inverted)
next
  assume "size_ram ram \<le> custom_bound ram a"
  then show "fst (search_range ram (Some a) et) = 0"
    by (rule search_range_outside)
next
  assume "size_ram ram \<le> custom_bound ram b"
  then show "snd (search_range ram st (Some b)) = size_ram ram"
    by (rule search_range_outside)
next
  assume h: "16 dvd unat (size_ram ram) \<and> size_ram ram \<le> a - base ram \<and> size_ram ram \<le> b - base ram"
  then have "search_range ram (Some a) (Some b) = (0, size_ram ram)"
    by (simp add: search_range_fully_outside)
  moreover have n: "search_range ram None None = (0, size_ram ram)"
    by (rule search_range_none)
  ultimately show "search_range ram (Some a) (Some b) = search_range ram None None" by simp
  from n show "search_range ram None None = (0, size_ram ram)" .
next
  let ?ram = "m_ram (MemoryPtr emu False s)"
  assume h: "16 dvd unat (size_ram ?ram) \<and> size_ram ?ram \<le> a - base ?ram \<and>
             size_ram ?ram \<le> b - base ?ram"
  then have "search_range ?ram (Some a) (Some b) = search_range ?ram None None"
    by (simp add: search_range_fully_outside search_range_none)
  then have "scan_bounds emu (s\<lparr>m_range_start := Some a, m_range_end := Some b\<rparr>) =
             scan_bounds emu (s\<lparr>m_range_start := None, m_range_end := None\<rparr>)"
    by (simp add: scan_bounds_def)
  then show "candidates_of (OnNewSearchClicked emu r (s\<lparr>m_range_start := Some a, m_range_end := Some b\<rparr>)) =
      candidates_of (OnNewSearchClicked emu r (s\<lparr>m_range_start := None, m_range_end := None\<rparr>))"
    by (simp add: OnNewSearchClicked_candidates)
qed

theorem bounds_clamped_witness:
  "0x80000100 - base small_ram \<le> 0x80000200 - base small_ram \<and>
   search_range small_ram (Some 0x80000200) (Some 0x80000100) = (0, size_ram small_ram) \<and>
   size_ram small_ram \<le> custom_bound small_ram 0x80000100 \<and>
   fst (search_range small_ram (Some 0x80000100) None) = 0 \<and>
   size_ram small_ram \<le> custom_bound small_ram 0x80000200 \<and>
   snd (search_range small_ram None (Some 0x80000200)) = size_ram small_ram \<and>
   16 dvd unat (size_ram small_ram) \<and>
   size_ram small_ram \<le> 0x80000100 - base small_ram \<and>
   size_ram small_ram \<le> 0x80000200 - base small_ram \<and>
   search_range small_ram (Some 0x80000100) (Some 0x80000200) = search_range small_ram None None \<and>
   search_range small_ram None None = (0, size_ram small_ram) \<and>
   m_ram (MemoryPtr example_emu False initial_state) = small_ram \<and>
   candidates_of (OnNewSearchClicked example_emu \<lparr>address = 0, old_value = 0\<rparr>
       (initial_state\<lparr>m_range_start := Some 0x80000100, m_range_end := Some 0x80000200\<rparr>)) =
   candidates_of (OnNewSearchClicked example_emu \<lparr>address = 0, old_value = 0\<rparr>
       (initial_state\<lparr>m_range_start := None, m_range_end := None\<rparr>))"
proof -
  have inv: "0x80000100 - base small_ram \<le> 0x80000200 - base small_ram"
    by (simp add: small_ram_def)
  have oa: "size_ram small_ram \<le> custom_bound small_ram 0x80000100"
    by (simp add: small_ram_def custom_bound_def)
  have ob: "size_ram small_ram \<le> custom_bound small_ram 0x80000200"
    by (simp add: small_ram_def custom_bound_def)
  have d: "16 dvd unat (size_ram small_ram)"
    by (simp add: small_ram_def)
  have ra: "size_ram small_ram \<le> 0x80000100 - base small_ram"
    by (simp add: small_ram_def)
  have rb: "size_ram small_ram \<le> 0x80000200 - base small_ram"
    by (simp add: small_ram_def)
  have m: "m_ram (MemoryPtr example_emu False initial_state) = small_ram"
    by (simp add: MemoryPtr_def initial_state_def example_emu_def small_ram_def)
  note c3 = bounds_clamped [where ram = small_ram and b = "0x80000100" and a = "0x80000200", THEN conjunct2,
      THEN conjunct2, THEN conjunct2, THEN conjunct1, rule_format, OF inv]
  note rest = bounds_clamped [where ram = small_ram and a = "0x80000100" and b = "0x80000200"
        and emu = example_emu and s = initial_state,
      THEN conjunct2, THEN conjunct2, THEN conjunct2, THEN conjunct2]
  note c4 = rest [THEN conjunct1, rule_format, OF oa]
  note c5 = rest [THEN conjunct2, THEN conjunct1, rule_format, OF ob]
  note c6 = rest [THEN conjunct2, THEN conjunct2, THEN conjunct1, rule_format,
      OF conjI [OF d conjI [OF ra rb]]]
  note c7 = rest [THEN conjunct2, THEN conjunct2, THEN conjunct2, THEN conjunct1, rule_format,
      unfolded m, OF conjI [OF d conjI [OF ra rb]]]
  show ?thesis
    by (intro conjI) (rule inv c3 oa ob d ra rb m c4 c5 conjunct1 [OF c6] conjunct2 [OF c6] c7)+
qed


text \<open>
  The restriction to sizes that are multiples of 16 is needed, since the bounds are compared
  with the size after they are aligned: in a region of 24 bytes the bounds 24 and 32 lie
  outside the region, and the search runs over the offsets 16 and 20 only.
\<close>

theorem bounds_outside_counterexample:
  "m_ram (MemoryPtr odd_emu False initial_state) =
     \<lparr>ptr = Some RAM, size_ram = 24, base = 0x80000000\<rparr> \<and>
   (24 :: u32) \<le> 0x80000018 - 0x80000000 \<and> (24 :: u32) \<le> 0x80000020 - 0x80000000 \<and>
   map_option (map_sum id (map address))
     (candidates_of (OnNewSearchClicked odd_emu \<lparr>address = 0, old_value = 0\<rparr>
        (initial_state\<lparr>m_range_start := Some 0x80000018, m_range_end := Some 0x80000020\<rparr>)))
     = Some (Inr [16, 20]) \<and>
   map_option (map_sum id (map address))
     (candidates_of (OnNewSearchClicked odd_emu \<lparr>address = 0, old_value = 0\<rparr>
        (initial_state\<lparr>m_range_start := None, m_range_end := None\<rparr>)))
     = Some (Inr [0, 4, 8, 12, 16, 20]) \<and>
   candidates_of (OnNewSearchClicked odd_emu \<lparr>address = 0, old_value = 0\<rparr>
        (initial_state\<lparr>m_range_start := Some 0x80000018, m_range_end := Some 0x80000020\<rparr>))
     \<noteq> candidates_of (OnNewSearchClicked odd_emu \<lparr>address = 0, old_value = 0\<rparr>
        (initial_state\<lparr>m_range_start := None, m_range_end := None\<rparr>))"
proof -
  have m: "m_ram (MemoryPtr odd_emu False initial_state) =
     \<lparr>ptr = Some RAM, size_ram = 24, base = 0x80000000\<rparr>"
    by (simp add: MemoryPtr_def initial_state_def odd_emu_def example_emu_def)
  have a: "map_option (map_sum id (map address))
     (candidates_of (OnNewSearchClicked odd_emu \<lparr>address = 0, old_value = 0\<rparr>
        (initial_state\<lparr>m_range_start := Some 0x80000018, m_range_end := Some 0x80000020\<rparr>)))
     = Some (Inr [16, 20])"
    by (simp add: candidates_of_def OnNewSearchClicked_def MemoryPtr_def initial_state_def
        odd_emu_def example_emu_def GetTypeSize_def search_range_def Let_def scan_loop.simps
        ram_read_def read_bytes_def memcpy_u32_def)
  have b: "map_option (map_sum id (map address))
     (candidates_of (OnNewSearchClicked odd_emu \<lparr>address = 0, old_value = 0\<rparr>
        (initial_state\<lparr>m_range_start := None, m_range_end := None\<rparr>)))
     = Some (Inr [0, 4, 8, 12, 16, 20])"
    by (simp add: candidates_of_def OnNewSearchClicked_def MemoryPtr_def initial_state_def
        odd_emu_def example_emu_def GetTypeSize_def search_range_def Let_def scan_loop.simps
        ram_read_def read_bytes_def memcpy_u32_def)
  have ne: "candidates_of (OnNewSearchClicked odd_emu \<lparr>address = 0, old_value = 0\<rparr>
        (initial_state\<lparr>m_range_start := Some 0x80000018, m_range_end := Some 0x80000020\<rparr>))
     \<noteq> candidates_of (OnNewSearchClicked odd_emu \<lparr>address = 0, old_value = 0\<rparr>
        (initial_state\<lparr>m_range_start := None, m_range_end := None\<rparr>))"
  proof
    assume "candidates_of (OnNewSearchClicked odd_emu \<lparr>address = 0, old_value = 0\<rparr>
        (initial_state\<lparr>m_range_start := Some 0x80000018, m_range_end := Some 0x80000020\<rparr>))
     = candidates_of (OnNewSearchClicked odd_emu \<lparr>address = 0, old_value = 0\<rparr>
        (initial_state\<lparr>m_range_start := None, m_range_end := None\<rparr>))"
    with a b show False by simp
  qed
  have o: "(24 :: u32) \<le> 0x80000018 - 0x80000000" "(24 :: u32) \<le> 0x80000020 - 0x80000000"
    by simp_all
  show ?thesis
    by (intro conjI) (rule m o a b ne)+
qed

section \<open>The invariant\<close>

text \<open>
  C10.  The offsets of the candidates are multiples of the width fixed by the last new
  search, increase strictly, and lie in the range \<open>[range_start, range_end)\<close> that the new
  search has computed, itself inside the region.  A new search that runs on an allocated
  region establishes this; a Refine pass (\<^verbatim>\<open>FilterCheatSearchResults\<close>, and \<^verbatim>\<open>NextSearch\<close>
  around it) keeps it and leaves the width alone; \<^verbatim>\<open>Reset\<close> empties the candidates; the
  display (\<^verbatim>\<open>Update\<close>) does not touch them.
\<close>

theorem candidates_invariant:
  "(IsRunningAndStarted emu \<and> region_ok emu s \<longrightarrow>
      (\<exists>s'. OnNewSearchClicked emu r s = Some (Inr s') \<and>
         m_search_type_size s' = GetTypeSize s \<and>
         offsets_ok (m_search_type_size s') (fst (scan_bounds emu s)) (snd (scan_bounds emu s))
           (map address (m_results s')) \<and>
         fst (scan_bounds emu s) \<le> snd (scan_bounds emu s) \<and>
         snd (scan_bounds emu s) \<le> size_ram (m_ram s'))) \<and>
   (FilterCheatSearchResults emu s val prev = Inr s1 \<and>
    offsets_ok (m_search_type_size s) lo hi (map address (m_results s)) \<longrightarrow>
      offsets_ok (m_search_type_size s1) lo hi (map address (m_results s1))) \<and>
   (NextSearch emu s = Inr s2 \<and>
    offsets_ok (m_search_type_size s) lo hi (map address (m_results s)) \<longrightarrow>
      offsets_ok (m_search_type_size s2) lo hi (map address (m_results s2))) \<and>
   m_results (Reset emu s) = [] \<and>
   offsets_ok n lo hi (map address (m_results (Reset emu s))) \<and>
   m_results (Update emu s) = m_results s \<and>
   m_search_type_size (Update emu s) = m_search_type_size s"
proof (intro conjI impI)
  assume "IsRunningAndStarted emu \<and> region_ok emu s"
  then have run: "IsRunningAndStarted emu" and ok: "region_ok emu s" by simp_all
  let ?n = "GetTypeSize s"
  let ?lo = "fst (scan_bounds emu s)" and ?hi = "snd (scan_bounds emu s)"
  obtain buf k s' where
    eq: "unat ?lo + k * ?n = unat ?hi" and
    O: "OnNewSearchClicked emu r s = Some (Inr s')" and
    res: "m_results s' = scan_list buf ?n ?lo k r" and
    n: "m_search_type_size s' = ?n" and
    ram: "m_ram s' = m_ram (MemoryPtr emu False s)"
    by (rule OnNewSearchClicked_exact [OF run ok])
  have lt: "unat ?lo + k * ?n < 2 ^ 32"
    unfolding eq using unsigned_less [of ?hi, where 'a = nat] by simp
  have wi: "?lo \<le> ?hi" "?hi \<le> size_ram (m_ram s')"
    using search_range_within [of "m_ram (MemoryPtr emu False s)" "m_range_start s" "m_range_end s"]
    by (simp_all add: scan_bounds_def ram)
  have dlo: "?n dvd unat ?lo"
    unfolding scan_bounds_def
    by (rule dvd_trans [OF GetTypeSize_facts(3) search_range_dvd])
  have "map (\<lambda>c. unat (address c)) (m_results s') = map (\<lambda>i. unat ?lo + i * ?n) [0..<k]"
    unfolding res by (rule scan_list_address [OF lt])
  then have "offsets_ok ?n ?lo ?hi (map address (m_results s'))"
    using GetTypeSize_facts(1) dlo eq by (rule offsets_ok_scan)
  with O n wi
  show "\<exists>s'. OnNewSearchClicked emu r s = Some (Inr s') \<and>
         m_search_type_size s' = ?n \<and>
         offsets_ok (m_search_type_size s') ?lo ?hi (map address (m_results s')) \<and>
         ?lo \<le> ?hi \<and> ?hi \<le> size_ram (m_ram s')"
    by auto
next
  assume a: "FilterCheatSearchResults emu s val prev = Inr s1 \<and>
    offsets_ok (m_search_type_size s) lo hi (map address (m_results s))"
  then have F: "FilterCheatSearchResults emu s val prev = Inr s1" by simp
  from Filter_subseq [OF F] a
  show "offsets_ok (m_search_type_size s1) lo hi (map address (m_results s1))"
    by (auto intro: offsets_ok_subseq)
next
  assume a: "NextSearch emu s = Inr s2 \<and>
    offsets_ok (m_search_type_size s) lo hi (map address (m_results s))"
  then have N: "NextSearch emu s = Inr s2" by simp
  from NextSearch_subseq [OF N] a
  show "offsets_ok (m_search_type_size s2) lo hi (map address (m_results s2))"
    by (auto intro: offsets_ok_subseq)
next
  show "m_results (Reset emu s) = []" by (rule Reset_results)
  show "offsets_ok n lo hi (map address (m_results (Reset emu s)))"
    by (simp add: Reset_results offsets_ok_def)
  show "m_results (Update emu s) = m_results s"
    and "m_search_type_size (Update emu s) = m_search_type_size s"
    by simp_all
qed

theorem candidates_invariant_witness:
  "IsRunningAndStarted example_emu \<and> region_ok example_emu no_bounds \<and>
   (\<exists>s'. OnNewSearchClicked example_emu \<lparr>address = 0, old_value = 0\<rparr> no_bounds = Some (Inr s') \<and>
         m_search_type_size s' = GetTypeSize no_bounds \<and>
         offsets_ok (m_search_type_size s') (fst (scan_bounds example_emu no_bounds))
           (snd (scan_bounds example_emu no_bounds)) (map address (m_results s')) \<and>
         fst (scan_bounds example_emu no_bounds) \<le> snd (scan_bounds example_emu no_bounds) \<and>
         snd (scan_bounds example_emu no_bounds) \<le> size_ram (m_ram s')) \<and>
   FilterCheatSearchResults example_emu (two_candidates\<lparr>m_match_operation := Equal\<rparr>)
       0x05000000 False =
     Inr (two_candidates\<lparr>m_match_operation := Equal,
            m_results := [\<lparr>address = 0, old_value = 0x05000000\<rparr>]\<rparr>) \<and>
   offsets_ok (m_search_type_size (two_candidates\<lparr>m_match_operation := Equal\<rparr>)) 0 16
     (map address (m_results (two_candidates\<lparr>m_match_operation := Equal\<rparr>))) \<and>
   offsets_ok (m_search_type_size (two_candidates\<lparr>m_match_operation := Equal,
            m_results := [\<lparr>address = 0, old_value = 0x05000000\<rparr>]\<rparr>)) 0 16
     (map address (m_results (two_candidates\<lparr>m_match_operation := Equal,
            m_results := [\<lparr>address = 0, old_value = 0x05000000\<rparr>]\<rparr>))) \<and>
   NextSearch mutated_emu (two_candidates\<lparr>m_match_operation := NotEqual\<rparr>) =
     Inr (Update mutated_emu (two_candidates\<lparr>m_match_operation := NotEqual,
            m_results := [\<lparr>address = 0, old_value = 0x06000000\<rparr>]\<rparr>)) \<and>
   offsets_ok (m_search_type_size (two_candidates\<lparr>m_match_operation := NotEqual\<rparr>)) 0 16
     (map address (m_results (two_candidates\<lparr>m_match_operation := NotEqual\<rparr>))) \<and>
   offsets_ok (m_search_type_size (Update mutated_emu (two_candidates\<lparr>m_match_operation := NotEqual,
            m_results := [\<lparr>address = 0, old_value = 0x06000000\<rparr>]\<rparr>))) 0 16
     (map address (m_results (Update mutated_emu (two_candidates\<lparr>m_match_operation := NotEqual,
            m_results := [\<lparr>address = 0, old_value = 0x06000000\<rparr>]\<rparr>))))"
proof -
  have run: "IsRunningAndStarted example_emu"
    by (simp add: example_emu_def)
  have ok: "region_ok example_emu no_bounds"
    by (simp add: region_ok_def MemoryPtr_def no_bounds_def initial_state_def example_emu_def
          GetTypeSize_def)
  have F: "FilterCheatSearchResults example_emu (two_candidates\<lparr>m_match_operation := Equal\<rparr>)
       0x05000000 False =
     Inr (two_candidates\<lparr>m_match_operation := Equal,
            m_results := [\<lparr>address = 0, old_value = 0x05000000\<rparr>]\<rparr>)"
    by (simp add: eval_defs)
  have i1: "offsets_ok (m_search_type_size (two_candidates\<lparr>m_match_operation := Equal\<rparr>)) 0 16
     (map address (m_results (two_candidates\<lparr>m_match_operation := Equal\<rparr>)))"
    by (simp add: offsets_ok_def two_candidates_def initial_state_def)
  have N: "NextSearch mutated_emu (two_candidates\<lparr>m_match_operation := NotEqual\<rparr>) =
     Inr (Update mutated_emu (two_candidates\<lparr>m_match_operation := NotEqual,
            m_results := [\<lparr>address = 0, old_value = 0x06000000\<rparr>]\<rparr>))"
    by (simp add: NextSearch_def Let_def eval_defs)
  have i2: "offsets_ok (m_search_type_size (two_candidates\<lparr>m_match_operation := NotEqual\<rparr>)) 0 16
     (map address (m_results (two_candidates\<lparr>m_match_operation := NotEqual\<rparr>)))"
    by (simp add: offsets_ok_def two_candidates_def initial_state_def)
  note c1 = candidates_invariant [THEN conjunct1, rule_format, OF conjI [OF run ok]]
  note c2 = candidates_invariant [THEN conjunct2, THEN conjunct1, rule_format, OF conjI [OF F i1]]
  note c3 = candidates_invariant [THEN conjunct2, THEN conjunct2, THEN conjunct1, rule_format,
      OF conjI [OF N i2]]
  show ?thesis
    by (intro conjI) (rule run ok c1 F i1 c2 N i2 c3)+
qed

section \<open>The display\<close>

text \<open>
  C2.  \<^verbatim>\<open>Update\<close> on ten thousand candidates: it decodes 4096 rows and leaves the rows from
  4096 on without items, but the label it leaves is \<^verbatim>\<open>10000 Match(es)\<close>, not the message
  \<^verbatim>\<open>Too many matches to display (10000)\<close> that it has set just before, and the table has
  ten thousand rows; \<^verbatim>\<open>TimedUpdate\<close> on the same state leaves the message and 4096 rows.
\<close>

theorem update_label_overwritten:
  "length (m_results ten_thousand) = 10000 \<and>
   too_many (length (m_results ten_thousand)) = ''Too many matches to display (10000)'' \<and>
   m_result_label (Update emu ten_thousand) = ''10000 Match(es)'' \<and>
   m_result_label (Update emu ten_thousand) \<noteq> too_many (length (m_results ten_thousand)) \<and>
   rowCount (m_match_table (Update emu ten_thousand)) = 10000 \<and>
   float_reads (Update emu ten_thousand) = 4096 \<and>
   item (m_match_table (Update emu ten_thousand)) (4096, 1) = None \<and>
   item (m_match_table (Update emu ten_thousand)) (9999, 1) = None \<and>
   map_sum id m_result_label (TimedUpdate emu 0 0 ten_thousand) =
     Inr ''Too many matches to display (10000)'' \<and>
   map_sum id (\<lambda>s. rowCount (m_match_table s)) (TimedUpdate emu 0 0 ten_thousand) = Inr 4096"
proof -
  have len: "length (m_results ten_thousand) = 10000"
    by (simp add: ten_thousand_def)
  then have many: "MAX_RESULTS < int (length (m_results ten_thousand))"
    by (simp add: MAX_RESULTS_def)
  have nu: "\<not> m_updating ten_thousand"
    by (simp add: ten_thousand_def initial_state_def)
  have fr: "float_reads ten_thousand = 0"
    by (simp add: float_reads_def ten_thousand_def initial_state_def)
  have tm: "too_many (length (m_results ten_thousand)) = ''Too many matches to display (10000)''"
    by (simp add: len too_many_def number_10000)
  have lb: "m_result_label (Update emu ten_thousand) = ''10000 Match(es)''"
    by (simp add: Update_many(1) [OF many] len number_10000)
  have ne: "m_result_label (Update emu ten_thousand) \<noteq> too_many (length (m_results ten_thousand))"
    unfolding lb tm by simp
  have rc: "rowCount (m_match_table (Update emu ten_thousand)) = 10000"
    by (simp add: Update_many(2) [OF many] len)
  have fl: "float_reads (Update emu ten_thousand) = 4096"
    by (simp add: float_reads_def Update_many(3) [OF many] fr [unfolded float_reads_def])
  have i1: "item (m_match_table (Update emu ten_thousand)) (4096, 1) = None"
    by (rule Update_many(4) [OF many]) simp
  have i2: "item (m_match_table (Update emu ten_thousand)) (9999, 1) = None"
    by (rule Update_many(4) [OF many]) simp
  have t1: "map_sum id m_result_label (TimedUpdate emu 0 0 ten_thousand) =
     Inr ''Too many matches to display (10000)''"
    unfolding TimedUpdate_many(1) [OF many nu] tm ..
  have t2: "map_sum id (\<lambda>s. rowCount (m_match_table s)) (TimedUpdate emu 0 0 ten_thousand) = Inr 4096"
    by (rule TimedUpdate_many(2) [OF many nu])
  show ?thesis
    by (intro conjI) (rule len tm lb ne rc fl i1 i2 t1 t2)+
qed

text \<open>
  C9.  \<^verbatim>\<open>Update\<close> on two candidates whose addresses the emulator cannot read: both rows are
  shown, with the marker \<^verbatim>\<open>---\<close> in the hexadecimal column and \<^verbatim>\<open>-\<close> in the decimal
  column, but \<^verbatim>\<open>HostRead_F32\<close> is called on both addresses, and its result is shown in the
  float column; \<^verbatim>\<open>TimedUpdate\<close> on the same state shows the same markers and reads nothing.
\<close>

theorem update_reads_unreadable:
  "\<not> HostIsRAMAddress unmapped_emu (0 + base (m_ram two_candidates)) \<and>
   \<not> HostIsRAMAddress unmapped_emu (4 + base (m_ram two_candidates)) \<and>
   host_reads (Update unmapped_emu two_candidates) = [Read_F32 0x80000000, Read_F32 0x80000004] \<and>
   item (m_match_table (Update unmapped_emu two_candidates)) (0, 1) = Some ''---'' \<and>
   item (m_match_table (Update unmapped_emu two_candidates)) (0, 2) = Some ''-'' \<and>
   item (m_match_table (Update unmapped_emu two_candidates)) (0, 3) =
     Some (number_of_float unmapped_emu (HostRead_F32 unmapped_emu 0x80000000)) \<and>
   item (m_match_table (Update unmapped_emu two_candidates)) (1, 1) = Some ''---'' \<and>
   map_sum id host_reads (TimedUpdate unmapped_emu 0 1 two_candidates) = Inr [] \<and>
   map_sum id (\<lambda>s. item (m_match_table s) (0, 1)) (TimedUpdate unmapped_emu 0 1 two_candidates)
     = Inr (Some ''---'') \<and>
   map_sum id (\<lambda>s. item (m_match_table s) (1, 2)) (TimedUpdate unmapped_emu 0 1 two_candidates)
     = Inr (Some ''-'')"
proof -
  have u: "host_reads (Update unmapped_emu two_candidates) =
        [Read_F32 0x80000000, Read_F32 0x80000004] \<and>
      item (m_match_table (Update unmapped_emu two_candidates)) (0, 1) = Some ''---'' \<and>
      item (m_match_table (Update unmapped_emu two_candidates)) (0, 2) = Some ''-'' \<and>
      item (m_match_table (Update unmapped_emu two_candidates)) (0, 3) =
        Some (number_of_float unmapped_emu (HostRead_F32 unmapped_emu 0x80000000)) \<and>
      item (m_match_table (Update unmapped_emu two_candidates)) (1, 1) = Some ''---''"
    by (simp add: display_defs)
  have t: "map_sum id host_reads (TimedUpdate unmapped_emu 0 1 two_candidates) = Inr [] \<and>
      map_sum id (\<lambda>s. item (m_match_table s) (0, 1)) (TimedUpdate unmapped_emu 0 1 two_candidates)
        = Inr (Some ''---'') \<and>
      map_sum id (\<lambda>s. item (m_match_table s) (1, 2)) (TimedUpdate unmapped_emu 0 1 two_candidates)
        = Inr (Some ''-'')"
    by (simp add: display_defs)
  have h: "\<not> HostIsRAMAddress unmapped_emu (0 + base (m_ram two_candidates))"
    "\<not> HostIsRAMAddress unmapped_emu (4 + base (m_ram two_candidates))"
    by (simp_all add: unmapped_emu_def)
  from h u t show ?thesis by simp
qed

end
